theory Spec2Isabelle
  imports Complex_Main "HOL-Library.Word" "HOL-Library.Infinite_Set"
begin

section \<open>Values of sheet cells\<close>

text \<open>
  \<open>Range.getValues()\<close> yields, for each cell, a JavaScript string, number, boolean or
  \<open>Date\<close>; an empty cell is the empty string. A string is the list of its code units,
  each a character of Latin-1 (the accented letters of the source's literals are written
  with their codes, as \<open>CHR 0xE9\<close>; glyphs outside
  Latin-1 are written as bracketed names). A \<open>Date\<close> is its time value, the milliseconds
  since the epoch in UTC; sheets hold valid Dates only.
\<close>

datatype jsval = VStr string | VNum rat | VBool bool | VDate int

text \<open>JavaScript truthiness (\<open>!value\<close>, \<open>value || ...\<close>); a Date object is always truthy.\<close>

fun truthy :: "jsval \<Rightarrow> bool" where
  "truthy (VStr s) = (s \<noteq> [])"
| "truthy (VNum r) = (r \<noteq> 0)"
| "truthy (VBool b) = b"
| "truthy (VDate t) = True"

definition blankCell :: jsval where
  "blankCell = VStr []"

section \<open>Sheets as grids of cells\<close>

text \<open>
  A sheet is a grid of \<open>maxRows\<close> by \<open>maxColumns\<close> cells; rows and columns are numbered
  from 1, as in \<open>getRange(row, column, numRows, numColumns)\<close>. A cell that was never
  written is blank.
\<close>

record grid =
  maxRows :: nat
  maxColumns :: nat
  cell :: "nat \<Rightarrow> nat \<Rightarrow> jsval"

definition rowHasContent :: "grid \<Rightarrow> nat \<Rightarrow> bool" where
  "rowHasContent g r = list_ex (\<lambda>c. cell g r c \<noteq> blankCell) [1..<Suc (maxColumns g)]"

text \<open>\<open>getLastRow()\<close>: the position of the last row that has content, 0 on an empty sheet.\<close>

definition getLastRow :: "grid \<Rightarrow> nat" where
  "getLastRow g =
     (case filter (rowHasContent g) (rev [1..<Suc (maxRows g)]) of [] \<Rightarrow> 0 | r # _ \<Rightarrow> r)"

definition inRange :: "nat \<Rightarrow> nat \<Rightarrow> nat \<Rightarrow> nat \<Rightarrow> nat \<Rightarrow> nat \<Rightarrow> bool" where
  "inRange r c nr nc i j = (r \<le> i \<and> i < r + nr \<and> c \<le> j \<and> j < c + nc)"

text \<open>\<open>getRange(r, c, nr, nc).getValues()\<close>\<close>

definition getValues :: "grid \<Rightarrow> nat \<Rightarrow> nat \<Rightarrow> nat \<Rightarrow> nat \<Rightarrow> jsval list list" where
  "getValues g r c nr nc =
     map (\<lambda>i. map (\<lambda>j. cell g (r + i) (c + j)) [0..<nc]) [0..<nr]"

text \<open>\<open>getRange(r, c, nr, nc).clear()\<close>: the cells of the range become blank.\<close>

definition clearRange :: "grid \<Rightarrow> nat \<Rightarrow> nat \<Rightarrow> nat \<Rightarrow> nat \<Rightarrow> grid" where
  "clearRange g r c nr nc =
     g\<lparr>cell := \<lambda>i j. if inRange r c nr nc i j then blankCell else cell g i j\<rparr>"

text \<open>
  \<open>getRange(r, c, nr, nc).setValues(vals)\<close> with \<open>vals\<close> of \<open>nr\<close> rows and \<open>nc\<close>
  columns: the cells of the range take the values, every other cell keeps its own.
\<close>

definition setValues :: "grid \<Rightarrow> nat \<Rightarrow> nat \<Rightarrow> nat \<Rightarrow> nat \<Rightarrow> jsval list list \<Rightarrow> grid" where
  "setValues g r c nr nc vals =
     g\<lparr>cell := \<lambda>i j. if inRange r c nr nc i j then vals ! (i - r) ! (j - c) else cell g i j\<rparr>"

text \<open>
  \<open>appendRow(values)\<close>: the values go into the row after the last row with content; the
  sheet grows when that row or a column of the values lies outside it.
\<close>

definition appendRow :: "grid \<Rightarrow> jsval list \<Rightarrow> grid" where
  "appendRow g vals =
     (let r = getLastRow g + 1 in
      \<lparr>maxRows = max (maxRows g) r,
       maxColumns = max (maxColumns g) (length vals),
       cell = \<lambda>i j. if i = r \<and> 1 \<le> j \<and> j \<le> length vals then vals ! (j - 1) else cell g i j\<rparr>)"

text \<open>\<open>insertSheet(name)\<close>: a new sheet of 1000 rows and 26 columns, all blank.\<close>

definition insertSheet :: grid where
  "insertSheet = \<lparr>maxRows = 1000, maxColumns = 26, cell = \<lambda>i j. blankCell\<rparr>"

section \<open>The error sheet\<close>

text \<open>
  The spreadsheet may or may not hold the sheet named \<open>CONFIG.errorSheetName\<close>:
  \<open>getSheetByName\<close> returns \<open>null\<close> (here \<open>None\<close>) when it does not.
\<close>

definition errorHeader :: "jsval list" where
  "errorHeader = [VStr ''Horodatage'', VStr ''Type'', VStr (''D'' @ [CHR 0xE9] @ ''partement''), VStr ''Ligne'',
                  VStr ''Description'', VStr (''D'' @ [CHR 0xE9] @ ''tails'')]"

text \<open>\<open>getErrorSheet()\<close>: the error sheet, created with its header row when missing.\<close>

definition getErrorSheet :: "grid option \<Rightarrow> grid" where
  "getErrorSheet es =
     (case es of None \<Rightarrow> setValues insertSheet 1 1 1 6 [errorHeader] | Some g \<Rightarrow> g)"

text \<open>\<open>row || ''\<close> for the row argument of \<open>logError\<close>, a number or the empty string.\<close>

definition orEmpty :: "jsval \<Rightarrow> jsval" where
  "orEmpty v = (if truthy v then v else VStr [])"

text \<open>
  \<open>logError(type, department, row, description, details)\<close>; the timestamp is the
  locale rendering of the clock, passed in as \<open>stamp\<close>.
\<close>

definition logError ::
  "string \<Rightarrow> grid option \<Rightarrow> string \<Rightarrow> string \<Rightarrow> jsval \<Rightarrow> string \<Rightarrow> string \<Rightarrow> grid option" where
  "logError stamp es ty department row description details =
     Some (appendRow (getErrorSheet es)
       [VStr stamp, VStr ty, VStr department, orEmpty row, VStr description, VStr details])"

text \<open>\<open>clearErrorsByType(type)\<close>, lines 396-422.\<close>

definition clearErrorsByType :: "string \<Rightarrow> grid option \<Rightarrow> grid option" where
  "clearErrorsByType ty es =
     (case es of
        None \<Rightarrow> None
      | Some errorSheet \<Rightarrow>
          (let lastRow = getLastRow errorSheet in
           if lastRow \<le> 1 then Some errorSheet
           else
             let data = getValues errorSheet 2 1 (lastRow - 1) 6;
                 rowsToKeep = filter (\<lambda>row. row ! 1 \<noteq> VStr ty) data;
                 cleared = clearRange errorSheet 2 1 (lastRow - 1) 6
             in if length rowsToKeep > 0
                then Some (setValues cleared 2 1 (length rowsToKeep) 6 rowsToKeep)
                else Some cleared))"

text \<open>A sheet given by its rows, for concrete sheets.\<close>

definition gridOfRows :: "nat \<Rightarrow> nat \<Rightarrow> jsval list list \<Rightarrow> grid" where
  "gridOfRows h w rows =
     \<lparr>maxRows = h, maxColumns = w,
      cell = \<lambda>i j. if 1 \<le> i \<and> i \<le> length rows \<and> 1 \<le> j \<and> j \<le> length (rows ! (i - 1))
                    then rows ! (i - 1) ! (j - 1) else blankCell\<rparr>"

section \<open>The platform\<close>

text \<open>
  The functions of the JavaScript runtime and of Apps Script that the code calls and
  that are no code of the repository: they are parameters of the model. A digest is an
  array of signed bytes; \<open>dateParse\<close> is \<open>new Date(string)\<close>, \<open>None\<close> for an invalid
  date; \<open>tzOffset\<close> is the offset of local time from UTC in milliseconds.
\<close>

record platform =
  computeDigestMD5 :: "string \<Rightarrow> 8 word list"
  toISOString :: "int \<Rightarrow> string"
  formatDateGMT :: "int \<Rightarrow> string"
  toLocaleString :: "int \<Rightarrow> string"
  toLocaleDateString :: "int \<Rightarrow> string"
  dateToString :: "int \<Rightarrow> string"
  numberToString :: "rat \<Rightarrow> string"
  dateParse :: "string \<Rightarrow> int option"
  normalizeNFD :: "string \<Rightarrow> string"
  tzOffset :: int

section \<open>Events and their content hash\<close>

text \<open>The event objects that \<open>getAllEvents\<close> builds (lines 812-828).\<close>

record event_rec =
  date :: int
  startDate :: int
  endDate :: "int option"
  hasTime :: bool
  service :: string
  event :: string
  department :: string
  sheetId :: nat
  rowIndex :: nat
  surSiteCCFHK :: bool
  surCalendrierExcel :: bool
  surCalendrierExcelRaw :: string

definition hexDigit :: "nat \<Rightarrow> char" where
  "hexDigit n = ''0123456789abcdef'' ! n"

text \<open>\<open>n.toString(16)\<close> for a number below 256.\<close>

definition toString16 :: "nat \<Rightarrow> string" where
  "toString16 n = (if n < 16 then [hexDigit n] else [hexDigit (n div 16), hexDigit (n mod 16)])"

text \<open>The callback of \<open>rawHash.map\<close> (lines 1770-1773).\<close>

definition byteHex :: "8 word \<Rightarrow> string" where
  "byteHex byte =
     (let hex = toString16 (nat (if sint byte < 0 then sint byte + 256 else sint byte))
      in if length hex = 1 then CHR ''0'' # hex else hex)"

text \<open>The string that is hashed (line 1767).\<close>

definition hashInput :: "platform \<Rightarrow> event_rec \<Rightarrow> string" where
  "hashInput P e =
     (let startStr = toISOString P (startDate e);
          endStr = (case endDate e of Some d \<Rightarrow> toISOString P d | None \<Rightarrow> []);
          surSiteStr = (if surSiteCCFHK e then ''1'' else ''0'')
      in department e @ ''|'' @ startStr @ ''|'' @ endStr @ ''|'' @ service e @ ''|''
         @ event e @ ''|'' @ surSiteStr)"

definition computeEventHash :: "platform \<Rightarrow> event_rec \<Rightarrow> string" where
  "computeEventHash P e = concat (map byteHex (computeDigestMD5 P (hashInput P e)))"

section \<open>The sync tracking sheet\<close>

text \<open>
  A row of the tracking sheet under its header: the hash and the entry
  \<open>{gcalEventId, department, eventDate, lastSynced}\<close> (the field \<open>department\<close> is
  \<open>entryDepartment\<close> here). The sheet is \<open>None\<close> while it does not exist.
\<close>

record tracking_entry =
  gcalEventId :: string
  entryDepartment :: string
  eventDate :: string
  lastSynced :: int

type_synonym tracking_map = "(string \<times> tracking_entry) list"

text \<open>
  A JavaScript \<open>Map\<close> keeps its keys in insertion order: \<open>set\<close> replaces the value of a
  key that is present, in place, and appends a new key.
\<close>

fun map_set :: "'k \<Rightarrow> 'v \<Rightarrow> ('k \<times> 'v) list \<Rightarrow> ('k \<times> 'v) list" where
  "map_set k v [] = [(k, v)]"
| "map_set k v ((k', v') # m) = (if k = k' then (k, v) # m else (k', v') # map_set k v m)"

definition map_get :: "('k \<times> 'v) list \<Rightarrow> 'k \<Rightarrow> 'v option" where
  "map_get m k = map_of m k"

text \<open>\<open>getSyncTrackingData()\<close>, lines 1780-1805.\<close>

definition getSyncTrackingData :: "tracking_map option \<Rightarrow> tracking_map" where
  "getSyncTrackingData syncSheet =
     (case syncSheet of
        None \<Rightarrow> []
      | Some rows \<Rightarrow>
          foldl (\<lambda>trackingMap (hash, entry).
                   if hash \<noteq> [] then map_set hash entry trackingMap else trackingMap) [] rows)"

text \<open>
  \<open>writeSyncTracking(trackingMap)\<close>, lines 1811-1828: the sheet is created when missing,
  its rows are cleared, and the entries are written in the order of the map.
\<close>

definition writeSyncTracking :: "tracking_map \<Rightarrow> tracking_map option \<Rightarrow> tracking_map option" where
  "writeSyncTracking trackingMap syncSheet = Some trackingMap"

section \<open>The external calendar\<close>

text \<open>
  The Google calendar is a state of some type \<open>'c\<close> with the four operations the code
  calls. An operation returns its result and the next state; \<open>Inl msg\<close> (\<open>Some msg\<close> for
  \<open>deleteEvent\<close>) is an exception with that message. \<open>getEventById\<close> yields whether
  an event was found (\<open>Inr False\<close> is \<open>null\<close>).
\<close>

record 'c calendarApp =
  createEvent :: "'c \<Rightarrow> string \<Rightarrow> int \<Rightarrow> int \<Rightarrow> string \<Rightarrow> (string + string) \<times> 'c"
  createAllDayEvent :: "'c \<Rightarrow> string \<Rightarrow> int \<Rightarrow> int option \<Rightarrow> string \<Rightarrow> (string + string) \<times> 'c"
  getEventById :: "'c \<Rightarrow> string \<Rightarrow> (string + bool) \<times> 'c"
  deleteEvent :: "'c \<Rightarrow> string \<Rightarrow> string option \<times> 'c"

text \<open>The calls made to the calendar, in order.\<close>

datatype gcal_call =
    CreateEvent string int int string
  | CreateAllDayEvent string int "int option" string
  | GetEventById string
  | DeleteEvent string

definition defaultEventDurationHours :: int where
  "defaultEventDurationHours = 1"

definition eventTitleOf :: "event_rec \<Rightarrow> string" where
  "eventTitleOf e = (if service e \<noteq> [] then service e @ '' | '' @ event e else event e)"

text \<open>
  \<open>createCalendarEvent(calendar, event)\<close>, lines 1837-1874. The line feed of the
  description is the character 10. \<open>setDate(getDate() + 1)\<close> moves a Date by one day.
\<close>

definition createCalendarEvent ::
  "'c calendarApp \<Rightarrow> 'c \<Rightarrow> event_rec \<Rightarrow> (string + string) \<times> 'c \<times> gcal_call list" where
  "createCalendarEvent S cal e =
     (let title = eventTitleOf e;
          description = ''[[['' @ department e @ '']]]'' @ [CHR 0x0A, CHR 0x0A] @ ''Source: CCFHK Events''
      in if hasTime e then
           (let endTime = (case endDate e of
                             Some d \<Rightarrow> d
                           | None \<Rightarrow> startDate e + defaultEventDurationHours * 60 * 60 * 1000);
                (r, cal') = createEvent S cal title (startDate e) endTime description
            in (r, cal', [CreateEvent title (startDate e) endTime description]))
         else
           (case endDate e of
              Some d \<Rightarrow>
                (let exclusiveEnd = d + 86400000;
                     (r, cal') = createAllDayEvent S cal title (startDate e) (Some exclusiveEnd) description
                 in (r, cal', [CreateAllDayEvent title (startDate e) (Some exclusiveEnd) description]))
            | None \<Rightarrow>
                (let (r, cal') = createAllDayEvent S cal title (startDate e) None description
                 in (r, cal', [CreateAllDayEvent title (startDate e) None description]))))"

text \<open>
  The call that \<open>createCalendarEvent\<close> makes for an event (lines 1843-1871), whatever the
  calendar answers.
\<close>

definition createCall :: "event_rec \<Rightarrow> gcal_call" where
  "createCall e =
     (let title = eventTitleOf e;
          description = ''[[['' @ department e @ '']]]'' @ [CHR 0x0A, CHR 0x0A] @ ''Source: CCFHK Events''
      in if hasTime e then
           CreateEvent title (startDate e)
             (case endDate e of
                Some d \<Rightarrow> d
              | None \<Rightarrow> startDate e + defaultEventDurationHours * 60 * 60 * 1000) description
         else CreateAllDayEvent title (startDate e) (map_option (\<lambda>d. d + 86400000) (endDate e))
                description)"

text \<open>
  \<open>deleteCalendarEvent(calendar, gcalEventId)\<close>, lines 1933-1942: an exception of the
  calendar is caught inside and goes to \<open>Logger.log\<close>; the function itself never throws.
  The result is the calendar, the calls made and the lines logged.
\<close>

definition deleteCalendarEvent ::
  "'c calendarApp \<Rightarrow> 'c \<Rightarrow> string \<Rightarrow> 'c \<times> gcal_call list \<times> string list" where
  "deleteCalendarEvent S cal gcalId =
     (case getEventById S cal gcalId of
        (Inl msg, cal1) \<Rightarrow> (cal1, [GetEventById gcalId], [''Error deleting event: '' @ msg])
      | (Inr False, cal1) \<Rightarrow> (cal1, [GetEventById gcalId], [])
      | (Inr True, cal1) \<Rightarrow>
          (case deleteEvent S cal1 gcalId of
             (Some msg, cal2) \<Rightarrow>
               (cal2, [GetEventById gcalId, DeleteEvent gcalId], [''Error deleting event: '' @ msg])
           | (None, cal2) \<Rightarrow> (cal2, [GetEventById gcalId, DeleteEvent gcalId], [])))"

section \<open>Reconciliation\<close>

text \<open>
  What a run works on and leaves behind: the calendar, the calls made to it, the error
  sheet, the tracking sheet and the lines of \<open>Logger.log\<close>.
\<close>

record 'c world =
  calendar :: 'c
  apiCalls :: "gcal_call list"
  errorSheet :: "grid option"
  syncSheet :: "tracking_map option"
  logger :: "string list"

text \<open>The local variables of the loop over \<open>eventsToSync\<close> (lines 1973-1980).\<close>

record 'c sync_vars =
  seenHashes :: "string list"
  newTrackingMap :: tracking_map
  created :: nat
  unchanged :: nat
  syncErrors :: nat
  world :: "'c world"

text \<open>The body of \<open>eventsToSync.forEach\<close>, lines 1983-2018; \<open>now\<close> is the clock.\<close>

definition syncEvent ::
  "platform \<Rightarrow> 'c calendarApp \<Rightarrow> int \<Rightarrow> tracking_map \<Rightarrow> 'c sync_vars \<Rightarrow> event_rec \<Rightarrow> 'c sync_vars" where
  "syncEvent P S now trackingMap v e =
     (let hash = computeEventHash P e;
          seen = List.insert hash (seenHashes v);
          w = world v
      in case map_get trackingMap hash of
           Some existingEntry \<Rightarrow>
             v\<lparr>seenHashes := seen,
               newTrackingMap := map_set hash existingEntry (newTrackingMap v),
               unchanged := unchanged v + 1\<rparr>
         | None \<Rightarrow>
             (case createCalendarEvent S (calendar w) e of
                (Inr newId, cal', calls) \<Rightarrow>
                  v\<lparr>seenHashes := seen,
                    newTrackingMap := map_set hash
                      \<lparr>gcalEventId = newId, entryDepartment = department e,
                       eventDate = formatDateGMT P (date e), lastSynced = now\<rparr> (newTrackingMap v),
                    created := created v + 1,
                    world := w\<lparr>calendar := cal', apiCalls := apiCalls w @ calls\<rparr>\<rparr>
              | (Inl msg, cal', calls) \<Rightarrow>
                  v\<lparr>seenHashes := seen,
                    syncErrors := syncErrors v + 1,
                    world := w\<lparr>calendar := cal', apiCalls := apiCalls w @ calls,
                      errorSheet := logError (toLocaleString P now) (errorSheet w) ''SYNC_GCAL''
                        (department e) (VNum (of_nat (rowIndex e)))
                        ([CHR 0xC9] @ ''chec synchronisation Google Calendar'')
                        ([CHR 0xC9] @ ''v'' @ [CHR 0xE9] @ ''nement: '' @ [CHR 0x22] @ eventTitleOf e @ [CHR 0x22] @ '', Erreur: '' @ msg)\<rparr>\<rparr>))"

text \<open>
  The body of \<open>trackingMap.forEach\<close>, lines 2021-2037. Its \<open>catch\<close> is never entered,
  as \<open>deleteCalendarEvent\<close> does not throw: \<open>deleted\<close> counts every stale entry.
\<close>

definition deleteStale ::
  "'c calendarApp \<Rightarrow> string list \<Rightarrow> nat \<times> 'c world \<Rightarrow> string \<times> tracking_entry \<Rightarrow> nat \<times> 'c world" where
  "deleteStale S seen acc kv =
     (case acc of (deleted, w) \<Rightarrow>
        (case kv of (hash, entry) \<Rightarrow>
           if hash \<notin> set seen then
             (case deleteCalendarEvent S (calendar w) (gcalEventId entry) of
                (cal', calls, logged) \<Rightarrow>
                  (deleted + 1,
                   w\<lparr>calendar := cal', apiCalls := apiCalls w @ calls, logger := logger w @ logged\<rparr>))
           else (deleted, w)))"

record sync_result =
  resCreated :: nat
  resUnchanged :: nat
  resDeleted :: nat
  resErrors :: nat

text \<open>
  The run from line 1969 on, given the events that \<open>getAllEvents()\<close> returned: the filter
  on \<open>surSiteCCFHK\<close>, the two loops and \<open>writeSyncTracking\<close>.
\<close>

definition reconcile ::
  "platform \<Rightarrow> 'c calendarApp \<Rightarrow> int \<Rightarrow> event_rec list \<Rightarrow> 'c world \<Rightarrow> sync_result \<times> 'c world" where
  "reconcile P S now allEvents w0 =
     (let eventsToSync = filter (\<lambda>e. surSiteCCFHK e = True) allEvents;
          trackingMap = getSyncTrackingData (syncSheet w0);
          v = foldl (syncEvent P S now trackingMap)
                \<lparr>seenHashes = [], newTrackingMap = [], created = 0, unchanged = 0,
                 syncErrors = 0, world = w0\<rparr> eventsToSync;
          (deleted, w1) = foldl (deleteStale S (seenHashes v)) (0, world v) trackingMap;
          w2 = w1\<lparr>syncSheet := writeSyncTracking (newTrackingMap v) (syncSheet w1)\<rparr>
      in (\<lparr>resCreated = created v, resUnchanged = unchanged v, resDeleted = deleted,
           resErrors = syncErrors v\<rparr>, w2))"


section \<open>Numbers and strings of the runtime\<close>

text \<open>\<open>String(n)\<close> for a natural number and for an integer.\<close>

fun decimal :: "nat \<Rightarrow> string" where
  "decimal n = (if n < 10 then [''0123456789'' ! n]
                else decimal (n div 10) @ [''0123456789'' ! (n mod 10)])"

definition intToString :: "int \<Rightarrow> string" where
  "intToString i = (if i < 0 then ''-'' @ decimal (nat (- i)) else decimal (nat i))"

text \<open>\<open>s.padStart(n, '0')\<close>\<close>

definition padStart :: "nat \<Rightarrow> string \<Rightarrow> string" where
  "padStart n s = replicate (n - length s) CHR ''0'' @ s"

text \<open>
  \<open>String(value)\<close> and the template literal \<open>`${value}`\<close> of a cell value; numbers and
  Dates are printed by the platform.
\<close>

fun jsString :: "platform \<Rightarrow> jsval \<Rightarrow> string" where
  "jsString P (VStr s) = s"
| "jsString P (VNum r) = numberToString P r"
| "jsString P (VBool b) = (if b then ''true'' else ''false'')"
| "jsString P (VDate t) = dateToString P t"

text \<open>
  \<open>trim()\<close> and \<open>toLowerCase()\<close> on Latin-1: the white space is the characters 9 to 13,
  the space and the no-break space; the capital letters are A to Z and the accented
  capitals from 0xC0 to 0xDE without the multiplication sign 0xD7.
\<close>

definition isWhiteSpace :: "char \<Rightarrow> bool" where
  "isWhiteSpace c = (let n = (of_char c :: nat) in (9 \<le> n \<and> n \<le> 13) \<or> n = 32 \<or> n = 160)"

definition trim :: "string \<Rightarrow> string" where
  "trim s = rev (dropWhile isWhiteSpace (rev (dropWhile isWhiteSpace s)))"

definition lowerChar :: "char \<Rightarrow> char" where
  "lowerChar c =
     (let n = (of_char c :: nat)
      in if (65 \<le> n \<and> n \<le> 90) \<or> (192 \<le> n \<and> n \<le> 222 \<and> n \<noteq> 215) then char_of (n + 32) else c)"

definition toLowerCase :: "string \<Rightarrow> string" where
  "toLowerCase s = map lowerChar s"

text \<open>The comparison \<open>a < b\<close> of two strings, by code units.\<close>

fun strLess :: "string \<Rightarrow> string \<Rightarrow> bool" where
  "strLess [] [] = False"
| "strLess [] (b # bs) = True"
| "strLess (a # as) [] = False"
| "strLess (a # as) (b # bs) =
     ((of_char a :: nat) < of_char b \<or> (a = b \<and> strLess as bs))"

section \<open>Dates\<close>

text \<open>
  The \<open>Date\<close> functions of the runtime, after the definitions of the language standard
  (ECMA-262, section "Date Objects"): a day number counts the days since 1 January 1970,
  months are numbered from 0 and the days of the week from Sunday = 0. Local time is UTC
  shifted by the constant \<open>tzOffset\<close> of the platform (the script's time zone, Hong Kong,
  has no daylight saving time). Time values are taken in the range of valid Dates
  (\<open>TimeClip\<close> is not modelled).
\<close>

definition msPerDay :: int where
  "msPerDay = 86400000"

definition Day :: "int \<Rightarrow> int" where
  "Day t = t div msPerDay"

definition TimeWithinDay :: "int \<Rightarrow> int" where
  "TimeWithinDay t = t mod msPerDay"

definition DayFromYear :: "int \<Rightarrow> int" where
  "DayFromYear y = 365 * (y - 1970) + (y - 1969) div 4 - (y - 1901) div 100 + (y - 1601) div 400"

definition InLeapYear :: "int \<Rightarrow> bool" where
  "InLeapYear y = (y mod 4 = 0 \<and> (y mod 100 \<noteq> 0 \<or> y mod 400 = 0))"

text \<open>
  The year of a day number: the largest \<open>y\<close> with \<open>DayFromYear y \<le> d\<close>, found next to
  the estimate by the mean length of a year.
\<close>

definition YearFromDay :: "int \<Rightarrow> int" where
  "YearFromDay d =
     (let est = 1970 + (400 * d) div 146097
      in if DayFromYear (est + 1) \<le> d then est + 1
         else if DayFromYear est \<le> d then est
         else est - 1)"

definition DayWithinYear :: "int \<Rightarrow> int" where
  "DayWithinYear d = d - DayFromYear (YearFromDay d)"

text \<open>The day within the year at which month \<open>m\<close> starts (\<open>m = 12\<close>: the next year).\<close>

definition monthStart :: "bool \<Rightarrow> int \<Rightarrow> int" where
  "monthStart leap m =
     [0, 31, 59, 90, 120, 151, 181, 212, 243, 273, 304, 334, 365] ! nat m
       + (if leap \<and> 2 \<le> m then 1 else 0)"

definition MonthFromDay :: "int \<Rightarrow> int" where
  "MonthFromDay d =
     (let leap = InLeapYear (YearFromDay d); w = DayWithinYear d
      in if w < monthStart leap 1 then 0
         else if w < monthStart leap 2 then 1
         else if w < monthStart leap 3 then 2
         else if w < monthStart leap 4 then 3
         else if w < monthStart leap 5 then 4
         else if w < monthStart leap 6 then 5
         else if w < monthStart leap 7 then 6
         else if w < monthStart leap 8 then 7
         else if w < monthStart leap 9 then 8
         else if w < monthStart leap 10 then 9
         else if w < monthStart leap 11 then 10
         else 11)"

definition DateFromDay :: "int \<Rightarrow> int" where
  "DateFromDay d =
     DayWithinYear d - monthStart (InLeapYear (YearFromDay d)) (MonthFromDay d) + 1"

text \<open>The number of days of month \<open>m\<close>, in a leap year or not.\<close>

definition monthLength :: "bool \<Rightarrow> int \<Rightarrow> int" where
  "monthLength leap m = monthStart leap (m + 1) - monthStart leap m"

definition WeekDay :: "int \<Rightarrow> int" where
  "WeekDay d = (d + 4) mod 7"

text \<open>\<open>MakeDay\<close>, \<open>MakeTime\<close> and \<open>MakeDate\<close>; a month outside 0..11 carries into the year.\<close>

definition MakeDay :: "int \<Rightarrow> int \<Rightarrow> int \<Rightarrow> int" where
  "MakeDay year month dt =
     (let ym = year + month div 12; mn = month mod 12
      in DayFromYear ym + monthStart (InLeapYear ym) mn + dt - 1)"

definition MakeTime :: "int \<Rightarrow> int \<Rightarrow> int \<Rightarrow> int \<Rightarrow> int" where
  "MakeTime hour minute sec ms = hour * 3600000 + minute * 60000 + sec * 1000 + ms"

definition MakeDate :: "int \<Rightarrow> int \<Rightarrow> int" where
  "MakeDate day time = day * msPerDay + time"

definition LocalTime :: "platform \<Rightarrow> int \<Rightarrow> int" where
  "LocalTime P t = t + tzOffset P"

definition UTC :: "platform \<Rightarrow> int \<Rightarrow> int" where
  "UTC P t = t - tzOffset P"

text \<open>
  \<open>new Date(year, month, date, hours, minutes, seconds)\<close> in local time; a year from 0
  to 99 stands for 1900 + year.
\<close>

definition fullYear :: "int \<Rightarrow> int" where
  "fullYear year = (if 0 \<le> year \<and> year \<le> 99 then 1900 + year else year)"

definition newDate :: "platform \<Rightarrow> int \<Rightarrow> int \<Rightarrow> int \<Rightarrow> int \<Rightarrow> int \<Rightarrow> int \<Rightarrow> int" where
  "newDate P year month dt hours minutes seconds =
     UTC P (MakeDate (MakeDay (fullYear year) month dt) (MakeTime hours minutes seconds 0))"

definition getFullYear :: "platform \<Rightarrow> int \<Rightarrow> int" where
  "getFullYear P t = YearFromDay (Day (LocalTime P t))"

definition getMonth :: "platform \<Rightarrow> int \<Rightarrow> int" where
  "getMonth P t = MonthFromDay (Day (LocalTime P t))"

definition getDate :: "platform \<Rightarrow> int \<Rightarrow> int" where
  "getDate P t = DateFromDay (Day (LocalTime P t))"

definition getDay :: "platform \<Rightarrow> int \<Rightarrow> int" where
  "getDay P t = WeekDay (Day (LocalTime P t))"

definition getHours :: "platform \<Rightarrow> int \<Rightarrow> int" where
  "getHours P t = TimeWithinDay (LocalTime P t) div 3600000"

definition getMinutes :: "platform \<Rightarrow> int \<Rightarrow> int" where
  "getMinutes P t = (TimeWithinDay (LocalTime P t) div 60000) mod 60"

definition getSeconds :: "platform \<Rightarrow> int \<Rightarrow> int" where
  "getSeconds P t = (TimeWithinDay (LocalTime P t) div 1000) mod 60"

text \<open>
  \<open>Utilities.formatDate(date, Session.getScriptTimeZone(), 'yyyy-MM-dd')\<close>, for the years
  from 0 to 9999.
\<close>

definition formatDate :: "platform \<Rightarrow> int \<Rightarrow> string" where
  "formatDate P t =
     padStart 4 (intToString (getFullYear P t)) @ ''-'' @ padStart 2 (intToString (getMonth P t + 1))
       @ ''-'' @ padStart 2 (intToString (getDate P t))"

section \<open>Holidays\<close>

text \<open>
  \<open>CONFIG.schoolHolidays[academicYear]\<close> (lines 57-76), periods as (name, start, end), and
  \<open>CONFIG.publicHolidays[academicYear]\<close> (lines 79-119), days as (date, name); \<open>None\<close> for
  a year the table does not have.
\<close>

definition schoolHolidays :: "string \<Rightarrow> (string \<times> string \<times> string) list option" where
  "schoolHolidays academicYear =
    (if academicYear = ''2024-2025'' then Some
       [(''Vacances '' @ [CHR 0xE9] @ ''t'' @ [CHR 0xE9], ''2024-06-28'', ''2024-08-27''),
        (''Vacances d'' @ [CHR 0x27] @ ''octobre'', ''2024-10-25'', ''2024-11-01''),
        (''Vacances d'' @ [CHR 0x27] @ ''hiver'', ''2024-12-23'', ''2025-01-05''),
        (''Vacances Nouvel An chinois'', ''2025-01-29'', ''2025-02-02''),
        (''Vacances de P'' @ [CHR 0xE2] @ ''ques'', ''2025-04-14'', ''2025-04-27''),
        (''Vacances de printemps'', ''2025-05-26'', ''2025-05-29''),
        (''Vacances '' @ [CHR 0xE9] @ ''t'' @ [CHR 0xE9], ''2025-06-27'', ''2025-08-27'')]
     else if academicYear = ''2025-2026'' then Some
       [(''Vacances '' @ [CHR 0xE9] @ ''t'' @ [CHR 0xE9], ''2025-06-27'', ''2025-08-27''),
        (''Vacances d'' @ [CHR 0x27] @ ''octobre'', ''2025-10-24'', ''2025-10-31''),
        (''Vacances d'' @ [CHR 0x27] @ ''hiver'', ''2025-12-22'', ''2026-01-02''),
        (''Vacances Nouvel An chinois'', ''2026-02-16'', ''2026-02-20''),
        (''Vacances de P'' @ [CHR 0xE2] @ ''ques'', ''2026-03-30'', ''2026-04-10''),
        (''Vacances de printemps'', ''2026-05-26'', ''2026-05-29''),
        (''Vacances '' @ [CHR 0xE9] @ ''t'' @ [CHR 0xE9], ''2026-06-27'', ''2026-08-27'')]
     else None)"

definition publicHolidays :: "string \<Rightarrow> (string \<times> string) list option" where
  "publicHolidays academicYear =
    (if academicYear = ''2024-2025'' then Some
       [(''2024-09-18'', ''Apr'' @ [CHR 0xE8] @ ''s Mi-automne''),
        (''2024-10-01'', ''F'' @ [CHR 0xEA] @ ''te nationale''),
        (''2024-10-11'', ''Chung Yeung''),
        (''2024-12-25'', ''No'' @ [CHR 0xEB] @ ''l''),
        (''2024-12-26'', ''Boxing Day''),
        (''2025-01-01'', ''Jour de l'' @ [CHR 0x27] @ ''an''),
        (''2025-01-29'', ''Nouvel An chinois''),
        (''2025-01-30'', ''2e jour Nouvel An chinois''),
        (''2025-01-31'', ''3e jour Nouvel An chinois''),
        (''2025-04-04'', ''Ching Ming''),
        (''2025-04-18'', ''Vendredi saint''),
        (''2025-04-19'', ''Apr'' @ [CHR 0xE8] @ ''s Vendredi saint''),
        (''2025-04-21'', ''Lundi P'' @ [CHR 0xE2] @ ''ques''),
        (''2025-05-01'', ''F'' @ [CHR 0xEA] @ ''te travail''),
        (''2025-05-05'', ''Bouddha''),
        (''2025-05-31'', ''Tuen Ng''),
        (''2025-07-01'', ''F'' @ [CHR 0xEA] @ ''te SAR HK'')]
     else if academicYear = ''2025-2026'' then Some
       [(''2025-07-01'', ''F'' @ [CHR 0xEA] @ ''te SAR HK''),
        (''2025-10-01'', ''F'' @ [CHR 0xEA] @ ''te nationale''),
        (''2025-10-07'', ''Apr'' @ [CHR 0xE8] @ ''s Mi-automne''),
        (''2025-10-29'', ''Chung Yeung''),
        (''2025-12-25'', ''No'' @ [CHR 0xEB] @ ''l''),
        (''2025-12-26'', ''Boxing Day''),
        (''2026-01-01'', ''Jour de l'' @ [CHR 0x27] @ ''an''),
        (''2026-02-17'', ''Nouvel An chinois''),
        (''2026-02-18'', ''2e jour Nouvel An chinois''),
        (''2026-02-19'', ''3e jour Nouvel An chinois''),
        (''2026-04-03'', ''Vendredi saint''),
        (''2026-04-04'', ''Apr'' @ [CHR 0xE8] @ ''s Vendredi saint''),
        (''2026-04-06'', ''Apr'' @ [CHR 0xE8] @ ''s Ching Ming''),
        (''2026-04-07'', ''Apr'' @ [CHR 0xE8] @ ''s Lundi P'' @ [CHR 0xE2] @ ''ques''),
        (''2026-05-01'', ''F'' @ [CHR 0xEA] @ ''te travail''),
        (''2026-05-25'', ''Bouddha''),
        (''2026-06-19'', ''Tuen Ng''),
        (''2026-07-01'', ''F'' @ [CHR 0xEA] @ ''te SAR HK'')]
     else None)"

text \<open>
  \<open>getCurrentAcademicYear()\<close>, lines 208-215; \<open>yearFilter\<close> is the value of cell B1 of the
  calendar sheet, \<open>None\<close> when the spreadsheet has no calendar sheet.
\<close>

definition getCurrentAcademicYear :: "string option \<Rightarrow> string" where
  "getCurrentAcademicYear yearFilter =
     (case yearFilter of
        None \<Rightarrow> ''2025-2026''
      | Some y \<Rightarrow> if y \<noteq> [] then y else ''2025-2026'')"

text \<open>\<open>getSchoolHoliday(date, academicYear)\<close>, lines 223-235; \<open>None\<close> is \<open>null\<close>.\<close>

definition getSchoolHoliday :: "platform \<Rightarrow> int \<Rightarrow> string \<Rightarrow> string option" where
  "getSchoolHoliday P d academicYear =
     (case schoolHolidays academicYear of
        None \<Rightarrow> None
      | Some holidays \<Rightarrow>
          (let dateStr = formatDate P d
           in map_option fst
                (find (\<lambda>(name, start, end'). \<not> strLess dateStr start \<and> \<not> strLess end' dateStr)
                   holidays)))"

text \<open>\<open>getPublicHoliday(date, academicYear)\<close>, lines 243-255.\<close>

definition getPublicHoliday :: "platform \<Rightarrow> int \<Rightarrow> string \<Rightarrow> string option" where
  "getPublicHoliday P d academicYear =
     (case publicHolidays academicYear of
        None \<Rightarrow> None
      | Some holidays \<Rightarrow>
          (let dateStr = formatDate P d
           in map_option snd (find (\<lambda>(day, name). day = dateStr) holidays)))"

section \<open>The cells of the calendar grid\<close>

text \<open>
  The cell objects of \<open>generateMonthGrid\<close>; the field \<open>date\<close> of the source is \<open>cellDate\<close>
  here. A blank cell has no \<open>date\<close>, \<open>schoolHoliday\<close> or \<open>publicHoliday\<close> property.
\<close>

record day_cell =
  display :: string
  events :: "event_rec list"
  dayNumber :: "nat option"
  isToday :: bool
  cellDate :: "int option"
  schoolHoliday :: "string option"
  publicHoliday :: "string option"

definition blankDayCell :: day_cell where
  "blankDayCell = \<lparr>display = [], events = [], dayNumber = None, isToday = False,
     cellDate = None, schoolHoliday = None, publicHoliday = None\<rparr>"

definition maxEventsPerDay :: nat where
  "maxEventsPerDay = 8"

text \<open>\<open>if (name)\<close> for a holiday name or \<open>null\<close>.\<close>

definition truthyName :: "string option \<Rightarrow> bool" where
  "truthyName n = (case n of None \<Rightarrow> False | Some s \<Rightarrow> s \<noteq> [])"

text \<open>
  \<open>getCalendarStatusPrefix(event, deptEmoji)\<close>, lines 190-202; the two emoji are written
  by their names.
\<close>

definition getCalendarStatusPrefix :: "event_rec \<Rightarrow> string \<Rightarrow> string" where
  "getCalendarStatusPrefix e deptEmoji =
     (if surCalendrierExcel e then deptEmoji
      else if surCalendrierExcelRaw e = [] then ''[question mark]'' @ deptEmoji
      else ''[see-no-evil monkey]'' @ deptEmoji)"

text \<open>\<open>formatTimeForDisplay(date)\<close>, lines 1198-1202.\<close>

definition formatTimeForDisplay :: "platform \<Rightarrow> int \<Rightarrow> string" where
  "formatTimeForDisplay P d =
     padStart 2 (intToString (getHours P d)) @ '':'' @ padStart 2 (intToString (getMinutes P d))"

text \<open>
  \<open>formatDayCell(dayNumber, events, isToday, emojiMap, year, month)\<close>, lines 1214-1263;
  \<open>deptEmoji\<close> is \<open>getDepartmentEmoji(_, emojiMap)\<close>, which reads the names of the sheets.
\<close>

definition formatDayCell ::
  "platform \<Rightarrow> string option \<Rightarrow> (string \<Rightarrow> string) \<Rightarrow> nat \<Rightarrow> event_rec list \<Rightarrow> bool \<Rightarrow> int \<Rightarrow> int
     \<Rightarrow> day_cell" where
  "formatDayCell P yearFilter deptEmoji dayNum evs today year month =
     (let d = newDate P year month (int dayNum) 0 0 0;
          currentAcademicYear = getCurrentAcademicYear yearFilter;
          school = getSchoolHoliday P d currentAcademicYear;
          public = getPublicHoliday P d currentAcademicYear;
          display0 = decimal dayNum;
          display1 = (if truthyName public then display0 @ [CHR 0x0A] @ ''HK PH - '' @ the public
                      else if truthyName school then display0 @ [CHR 0x0A] @ ''Vacances LFI''
                      else display0);
          display2 = foldl (\<lambda>disp e.
                        let prefix = getCalendarStatusPrefix e (deptEmoji (department e));
                            eventText = (if hasTime e then formatTimeForDisplay P (startDate e) @ '' ''
                                         else []) @ eventTitleOf e
                        in disp @ [CHR 0x0A] @ prefix @ '' '' @ eventText)
                     display1 (take maxEventsPerDay evs);
          display3 = (if length evs > maxEventsPerDay
                      then display2 @ [CHR 0x0A] @ ''+ '' @ decimal (length evs - maxEventsPerDay)
                             @ '' autres...''
                      else display2)
      in \<lparr>display = display3, events = evs, dayNumber = Some dayNum, isToday = today,
          cellDate = Some d, schoolHoliday = school, publicHoliday = public\<rparr>)"

text \<open>\<open>formatDateKey(date)\<close>, lines 1118-1123.\<close>

definition formatDateKey :: "platform \<Rightarrow> int \<Rightarrow> string" where
  "formatDateKey P d =
     intToString (getFullYear P d) @ ''-'' @ padStart 2 (intToString (getMonth P d + 1)) @ ''-''
       @ padStart 2 (intToString (getDate P d))"

text \<open>
  \<open>groupEventsByDay(events)\<close>, lines 1099-1111: an object from date keys to the events of
  the day, in the order of the list.
\<close>

definition groupEventsByDay :: "platform \<Rightarrow> event_rec list \<Rightarrow> (string \<rightharpoonup> event_rec list)" where
  "groupEventsByDay P evs =
     foldl (\<lambda>grouped e.
              let key = formatDateKey P (date e)
              in grouped(key \<mapsto> (case grouped key of None \<Rightarrow> [] | Some l \<Rightarrow> l) @ [e]))
       Map.empty evs"

section \<open>The grid of a month\<close>

text \<open>
  The body of the inner loop of \<open>generateMonthGrid\<close> (lines 1167-1182) for one day of
  the week: the state is the row so far and \<open>currentDay\<close>; \<open>mkCell\<close> builds the cell of
  a day.
\<close>

definition placeDay ::
  "(nat \<Rightarrow> day_cell) \<Rightarrow> nat \<Rightarrow> nat \<Rightarrow> nat \<Rightarrow> day_cell list \<times> nat \<Rightarrow> nat \<Rightarrow> day_cell list \<times> nat" where
  "placeDay mkCell startingDayOfWeek daysInMonth week st dayOfWeek =
     (case st of (weekRow, currentDay) \<Rightarrow>
        (let shouldPlaceDay = ((week = 0 \<and> dayOfWeek \<ge> startingDayOfWeek) \<or>
                               (week > 0 \<and> currentDay \<le> daysInMonth))
         in if shouldPlaceDay \<and> currentDay \<le> daysInMonth
            then (weekRow @ [mkCell currentDay], currentDay + 1)
            else (weekRow @ [blankDayCell], currentDay)))"

text \<open>
  The outer loop (lines 1164-1188), from week \<open>week\<close> on: at most 6 weeks, and no more
  once \<open>currentDay\<close> has passed the last day.
\<close>

function weeksFrom ::
  "(nat \<Rightarrow> day_cell) \<Rightarrow> nat \<Rightarrow> nat \<Rightarrow> nat \<Rightarrow> day_cell list list \<Rightarrow> nat \<Rightarrow> day_cell list list" where
  "weeksFrom mkCell startingDayOfWeek daysInMonth week weeks currentDay =
     (if week < 6 then
        (let (weekRow, currentDay') =
               foldl (placeDay mkCell startingDayOfWeek daysInMonth week) ([], currentDay) [0..<7];
             weeks' = weeks @ [weekRow]
         in if currentDay' > daysInMonth then weeks'
            else weeksFrom mkCell startingDayOfWeek daysInMonth (week + 1) weeks' currentDay')
      else weeks)"
  by pat_completeness auto
termination
  by (relation "measure (\<lambda>(mkCell, startingDayOfWeek, daysInMonth, week, weeks, currentDay). 6 - week)")
     auto

declare weeksFrom.simps [simp del]

text \<open>
  \<open>generateMonthGrid(year, month, eventsByDay, emojiMap)\<close>, lines 1146-1191; \<open>now\<close> is the
  clock (\<open>new Date()\<close>).
\<close>

definition startingDayOfWeek :: "platform \<Rightarrow> int \<Rightarrow> int \<Rightarrow> nat" where
  "startingDayOfWeek P year month =
     (let firstDay = newDate P year month 1 0 0 0;
          jsDayOfWeek = getDay P firstDay
      in if jsDayOfWeek = 0 then 6 else nat (jsDayOfWeek - 1))"

definition daysInMonth :: "platform \<Rightarrow> int \<Rightarrow> int \<Rightarrow> nat" where
  "daysInMonth P year month =
     (let lastDay = newDate P year (month + 1) 0 0 0 0 in nat (getDate P lastDay))"

definition monthCell ::
  "platform \<Rightarrow> int \<Rightarrow> string option \<Rightarrow> (string \<Rightarrow> string) \<Rightarrow> int \<Rightarrow> int
     \<Rightarrow> (string \<rightharpoonup> event_rec list) \<Rightarrow> nat \<Rightarrow> day_cell" where
  "monthCell P now yearFilter deptEmoji year month eventsByDay currentDay =
     (let isCurrentMonth = (getFullYear P now = year \<and> getMonth P now = month);
          todayDate = getDate P now;
          d = newDate P year month (int currentDay) 0 0 0;
          dateKey = formatDateKey P d;
          dayEvents = (case eventsByDay dateKey of None \<Rightarrow> [] | Some l \<Rightarrow> l);
          today = (isCurrentMonth \<and> int currentDay = todayDate)
      in formatDayCell P yearFilter deptEmoji currentDay dayEvents today year month)"

definition generateMonthGrid ::
  "platform \<Rightarrow> int \<Rightarrow> string option \<Rightarrow> (string \<Rightarrow> string) \<Rightarrow> int \<Rightarrow> int
     \<Rightarrow> (string \<rightharpoonup> event_rec list) \<Rightarrow> day_cell list list" where
  "generateMonthGrid P now yearFilter deptEmoji year month eventsByDay =
     weeksFrom (monthCell P now yearFilter deptEmoji year month eventsByDay)
       (startingDayOfWeek P year month) (daysInMonth P year month) 0 [] 1"

section \<open>Background colours\<close>

text \<open>\<open>CONFIG.colors\<close>, lines 121-126.\<close>

definition colorSaturday :: string where "colorSaturday = ''#E3F2FD''"
definition colorSunday :: string where "colorSunday = ''#FFE0B2''"
definition colorSchoolHoliday :: string where "colorSchoolHoliday = ''#E1BEE7''"
definition colorPublicHoliday :: string where "colorPublicHoliday = ''#FFCDD2''"

text \<open>
  The background of a day cell in column \<open>colIndex\<close> (0 = Monday, 6 = Sunday), lines
  1563-1578 of \<open>applyFormatting\<close>.
\<close>

definition backgroundColor :: "day_cell \<Rightarrow> nat \<Rightarrow> string" where
  "backgroundColor c colIndex =
     (let dayOfWeek = colIndex;
          isSaturday = (dayOfWeek = 5);
          isSunday = (dayOfWeek = 6)
      in if truthyName (publicHoliday c) then colorPublicHoliday
         else if truthyName (schoolHoliday c) \<and> \<not> isSaturday \<and> \<not> isSunday then colorSchoolHoliday
         else if isSaturday then colorSaturday
         else if isSunday then colorSunday
         else ''#FFFFFF'')"

text \<open>
  The background that \<open>applyFormatting\<close> leaves on the cell of a day row: none is set on
  a blank cell (line 1559), and today's cell is set again to its highlight, after the
  pass of the colours (lines 1585-1589 after 1555-1583).
\<close>

definition cellBackground :: "day_cell \<Rightarrow> nat \<Rightarrow> string option" where
  "cellBackground c colIndex =
     (if dayNumber c = None then None
      else if isToday c then Some ''#BBDEFB''
      else Some (backgroundColor c colIndex))"

text \<open>The backgrounds of the cells of a day row (\<open>info.cells.forEach((cell, colIndex) ...)\<close>).\<close>

definition rowBackgrounds :: "day_cell list \<Rightarrow> string option list" where
  "rowBackgrounds cells = map (\<lambda>(colIndex, c). cellBackground c colIndex) (List.enumerate 0 cells)"

section \<open>Filtering\<close>

text \<open>
  The filter settings that \<open>readFilters\<close> returns (lines 847-859); the fields \<open>year\<close>,
  \<open>timeRange\<close>, \<open>department\<close>, \<open>surCalendrierExcel\<close>, \<open>surSiteCCFHK\<close> and \<open>search\<close> of the
  source carry the prefix \<open>filter\<close> here. The cells hold the strings of their dropdowns.
\<close>

record filters =
  filterYear :: string
  filterTimeRange :: string
  filterDepartment :: string
  filterSurCalendrierExcel :: string
  filterSurSiteCCFHK :: string
  filterSearch :: string

text \<open>The range \<open>{ start, end }\<close> of an academic year.\<close>

record year_range =
  rangeStart :: int
  rangeEnd :: int

definition isDigit :: "char \<Rightarrow> bool" where
  "isDigit c = (let n = (of_char c :: nat) in 48 \<le> n \<and> n \<le> 57)"

text \<open>
  \<open>yearStr.match(/(\d{4})-(\d{4})/)\<close>: the two groups of the leftmost match, \<open>None\<close> when
  the string has no match.
\<close>

fun matchAcademicYear :: "string \<Rightarrow> (string \<times> string) option" where
  "matchAcademicYear [] = None"
| "matchAcademicYear (c # cs) =
     (let s = c # cs
      in if 9 \<le> length s \<and> list_all isDigit (take 4 s) \<and> s ! 4 = CHR ''-''
            \<and> list_all isDigit (take 4 (drop 5 s))
         then Some (take 4 s, take 4 (drop 5 s))
         else matchAcademicYear cs)"

text \<open>\<open>parseInt\<close> of a string of digits.\<close>

definition parseInt :: "string \<Rightarrow> int" where
  "parseInt s = foldl (\<lambda>n c. 10 * n + (int (of_char c) - 48)) 0 s"

text \<open>\<open>parseAcademicYear(yearStr)\<close>, lines 920-937; \<open>now\<close> is the clock.\<close>

definition parseAcademicYear :: "platform \<Rightarrow> int \<Rightarrow> string \<Rightarrow> year_range" where
  "parseAcademicYear P now yearStr =
     (case matchAcademicYear yearStr of
        None \<Rightarrow>
          (let year = (if getMonth P now \<ge> 7 then getFullYear P now else getFullYear P now - 1)
           in \<lparr>rangeStart = newDate P year 7 1 0 0 0,
               rangeEnd = newDate P (year + 1) 6 31 23 59 59\<rparr>)
      | Some (g1, g2) \<Rightarrow>
          (let startYear = parseInt g1
           in \<lparr>rangeStart = newDate P startYear 7 1 0 0 0,
               rangeEnd = newDate P (startYear + 1) 6 31 23 59 59\<rparr>))"

text \<open>\<open>CONFIG.monthNames\<close>, lines 32-35, from August to July.\<close>

definition monthNames :: "string list" where
  "monthNames =
     [''ao'' @ [CHR 0xFB] @ ''t'', ''septembre'', ''octobre'', ''novembre'',
      ''d'' @ [CHR 0xE9] @ ''cembre'', ''janvier'', ''f'' @ [CHR 0xE9] @ ''vrier'', ''mars'',
      ''avril'', ''mai'', ''juin'', ''juillet'']"

text \<open>\<open>list.indexOf(x)\<close>, \<open>None\<close> for -1.\<close>

fun indexOf :: "'a list \<Rightarrow> 'a \<Rightarrow> nat option" where
  "indexOf [] x = None"
| "indexOf (y # ys) x = (if y = x then Some 0 else map_option Suc (indexOf ys x))"

text \<open>\<open>passesTimeRangeFilter(event, timeRange, yearRange)\<close>, lines 946-982.\<close>

definition passesTimeRangeFilter :: "platform \<Rightarrow> int \<Rightarrow> event_rec \<Rightarrow> string \<Rightarrow> year_range \<Rightarrow> bool" where
  "passesTimeRangeFilter P now e timeRange yearRange =
     (if timeRange = ''Tout'' then True
      else if timeRange = ''Actuel + '' @ [CHR 0xC0] @ '' venir'' then
        (let startOfMonth = newDate P (getFullYear P now) (getMonth P now) 1 0 0 0
         in date e \<ge> startOfMonth)
      else
        (case indexOf monthNames (toLowerCase timeRange) of
           Some monthIndex \<Rightarrow>
             (let calendarMonth = (int monthIndex + 7) mod 12;
                  eventMonth = getMonth P (date e)
              in if eventMonth \<noteq> calendarMonth then False
                 else date e \<ge> rangeStart yearRange \<and> date e \<le> rangeEnd yearRange)
         | None \<Rightarrow> True))"

text \<open>\<open>text.includes(part)\<close>\<close>

fun stringIncludes :: "string \<Rightarrow> string \<Rightarrow> bool" where
  "stringIncludes [] part = (part = [])"
| "stringIncludes (c # cs) part = (take (length part) (c # cs) = part \<or> stringIncludes cs part)"

text \<open>The callback of \<open>allEvents.filter\<close> in \<open>getFilteredEvents\<close>, lines 870-912.\<close>

definition keepEvent :: "platform \<Rightarrow> int \<Rightarrow> filters \<Rightarrow> year_range \<Rightarrow> event_rec \<Rightarrow> bool" where
  "keepEvent P now f yearRange e =
     (if date e < rangeStart yearRange \<or> date e > rangeEnd yearRange then False
      else if \<not> passesTimeRangeFilter P now e (filterTimeRange f) yearRange then False
      else if filterDepartment f \<noteq> ''Tous'' \<and> department e \<noteq> filterDepartment f then False
      else if filterSearch f \<noteq> []
              \<and> \<not> stringIncludes (toLowerCase (service e @ '' '' @ event e)) (filterSearch f) then False
      else if filterSurSiteCCFHK f \<noteq> [] \<and> filterSurSiteCCFHK f \<noteq> ''Tous''
              \<and> surSiteCCFHK e \<noteq> (filterSurSiteCCFHK f = ''Oui'') then False
      else if filterSurCalendrierExcel f \<noteq> [] \<and> filterSurCalendrierExcel f \<noteq> ''Tous''
              \<and> surCalendrierExcel e \<noteq> (filterSurCalendrierExcel f = ''Oui'') then False
      else True)"

text \<open>\<open>getFilteredEvents(allEvents, filters)\<close>, lines 867-913.\<close>

definition getFilteredEvents :: "platform \<Rightarrow> int \<Rightarrow> event_rec list \<Rightarrow> filters \<Rightarrow> event_rec list" where
  "getFilteredEvents P now allEvents f =
     (let yearRange = parseAcademicYear P now (filterYear f)
      in filter (keepEvent P now f yearRange) allEvents)"

section \<open>Reading the rows of a department sheet\<close>

text \<open>
  \<open>hasTimeComponent(value)\<close>, lines 664-674, and \<open>parseDateTimeValue(value)\<close>, lines
  681-701, \<open>None\<close> for \<open>null\<close>. \<open>new Date(number)\<close> drops the fraction of the number and
  is invalid beyond 8.64e15 milliseconds; \<open>new Date(true)\<close> is the time value 1.
\<close>

fun hasTimeComponent :: "platform \<Rightarrow> jsval \<Rightarrow> bool" where
  "hasTimeComponent P (VDate t) = (getHours P t \<noteq> 0 \<or> getMinutes P t \<noteq> 0 \<or> getSeconds P t \<noteq> 0)"
| "hasTimeComponent P (VNum r) = (r \<noteq> of_int \<lfloor>r\<rfloor>)"
| "hasTimeComponent P v = False"

definition dateOfNumber :: "rat \<Rightarrow> int option" where
  "dateOfNumber r =
     (if \<bar>r\<bar> > 8640000000000000 then None
      else Some (if r < 0 then \<lceil>r\<rceil> else \<lfloor>r\<rfloor>))"

definition parseDateTimeValue :: "platform \<Rightarrow> jsval \<Rightarrow> (int \<times> bool) option" where
  "parseDateTimeValue P v =
     (if \<not> truthy v then None
      else case v of
        VDate t \<Rightarrow> Some (t, hasTimeComponent P v)
      | VNum r \<Rightarrow> map_option (\<lambda>t. (t, hasTimeComponent P v)) (dateOfNumber r)
      | VStr s \<Rightarrow> map_option (\<lambda>t. (t, False)) (dateParse P s)
      | VBool b \<Rightarrow> Some (1, False))"

text \<open>\<open>toBooleanFilter(value)\<close>, lines 178-182.\<close>

definition toBooleanFilter :: "platform \<Rightarrow> jsval \<Rightarrow> bool" where
  "toBooleanFilter P v =
     (if \<not> truthy v then False
      else let str = trim (toLowerCase (jsString P v))
           in str = ''oui'' \<or> str = ''yes'' \<or> str = ''true'' \<or> str = ''1'' \<or> str = ''x'')"

text \<open>
  The columns that \<open>getAllEvents\<close> finds in the header row of a sheet (lines 724-750),
  counted from 0; \<open>None\<close> is the index -1. A sheet is read when it has a date column, a
  service column and an event column.
\<close>

record columns =
  useLegacy :: bool
  dateColIndex :: nat
  endCol :: "nat option"
  serviceCol :: nat
  eventCol :: nat
  surSiteCol :: "nat option"
  surCalendrierCol :: "nat option"

text \<open>\<open>row[c]\<close>; outside the row it is \<open>undefined\<close>, which is falsy like the empty string.\<close>

definition cellAt :: "jsval list \<Rightarrow> nat \<Rightarrow> jsval" where
  "cellAt row c = (if c < length row then row ! c else VStr [])"

text \<open>\<open>String(value || '').trim()\<close> and \<open>value || '(vide)'\<close> in a template.\<close>

definition textOf :: "platform \<Rightarrow> jsval \<Rightarrow> string" where
  "textOf P v = trim (if truthy v then jsString P v else [])"

definition orVide :: "platform \<Rightarrow> jsval \<Rightarrow> string" where
  "orVide P v = (if truthy v then jsString P v else ''(vide)'')"

definition typeDonnees :: string where
  "typeDonnees = ''DONN'' @ [CHR 0xC9] @ ''ES''"

text \<open>
  The body of the loop over the data rows (lines 753-829) for row \<open>i\<close> of the data: the
  state is the list \<open>events\<close> and the error sheet; \<open>stamp\<close> is the timestamp that
  \<open>logError\<close> takes from the clock.
\<close>

definition processRow ::
  "platform \<Rightarrow> string \<Rightarrow> string \<Rightarrow> nat \<Rightarrow> columns \<Rightarrow> event_rec list \<times> grid option \<Rightarrow> nat \<times> jsval list
     \<Rightarrow> event_rec list \<times> grid option" where
  "processRow P stamp sheetName sheetIdent cols st ir =
     (case st of (evs, errs) \<Rightarrow> case ir of (i, row) \<Rightarrow>
      (let rowNum = i + 1;
           serviceName = textOf P (cellAt row (serviceCol cols));
           eventName = textOf P (cellAt row (eventCol cols));
           rawDateValue = cellAt row (dateColIndex cols);
           startParsed = parseDateTimeValue P rawDateValue
       in case startParsed of
            None \<Rightarrow>
              if eventName \<noteq> [] then
                (evs, logError stamp errs typeDonnees sheetName (VNum (of_nat rowNum))
                        ''Date manquante ou invalide''
                        ([CHR 0xC9] @ ''v'' @ [CHR 0xE9] @ ''nement: '' @ [CHR 0x22] @ eventName
                           @ [CHR 0x22] @ '', Valeur date: '' @ [CHR 0x22] @ orVide P rawDateValue
                           @ [CHR 0x22]))
              else (evs, errs)
          | Some (startD, startHasTime) \<Rightarrow>
              (let endCell = (case endCol cols of
                                None \<Rightarrow> None
                              | Some c \<Rightarrow> if \<not> useLegacy cols \<and> truthy (cellAt row c)
                                          then Some (cellAt row c) else None);
                   endParsed = (case endCell of None \<Rightarrow> None | Some v \<Rightarrow> parseDateTimeValue P v);
                   errs1 = (case endCell of
                              None \<Rightarrow> errs
                            | Some v \<Rightarrow>
                                if endParsed = None then
                                  logError stamp errs typeDonnees sheetName (VNum (of_nat rowNum))
                                    ''Date de fin invalide''
                                    ([CHR 0xC9] @ ''v'' @ [CHR 0xE9] @ ''nement: '' @ [CHR 0x22]
                                       @ eventName @ [CHR 0x22] @ '', Valeur fin: '' @ [CHR 0x22]
                                       @ jsString P v @ [CHR 0x22])
                                else errs);
                   surSite = (case surSiteCol cols of
                                None \<Rightarrow> False | Some c \<Rightarrow> toBooleanFilter P (cellAt row c));
                   surCalendrier = (case surCalendrierCol cols of
                                      None \<Rightarrow> False | Some c \<Rightarrow> toBooleanFilter P (cellAt row c));
                   surCalendrierRaw = (case surCalendrierCol cols of
                                         None \<Rightarrow> []
                                       | Some c \<Rightarrow> toLowerCase (textOf P (cellAt row c)))
               in if eventName = [] then
                    (evs, logError stamp errs1 typeDonnees sheetName (VNum (of_nat rowNum))
                            (''Nom d'' @ [CHR 0x27, CHR 0xE9] @ ''v'' @ [CHR 0xE9] @ ''nement manquant'')
                            (''Date: '' @ toLocaleDateString P startD @ '', Service: '' @ [CHR 0x22]
                               @ (if serviceName \<noteq> [] then serviceName else ''(vide)'')
                               @ [CHR 0x22]))
                  else
                    (evs @ [\<lparr>date = startD, startDate = startD,
                             endDate = map_option fst endParsed,
                             hasTime = (startHasTime \<or> (case endParsed of None \<Rightarrow> False
                                                          | Some (d, t) \<Rightarrow> t)),
                             service = serviceName, event = eventName, department = sheetName,
                             sheetId = sheetIdent, rowIndex = i + 1,
                             surSiteCCFHK = surSite, surCalendrierExcel = surCalendrier,
                             surCalendrierExcelRaw = surCalendrierRaw\<rparr>],
                     errs1))))"

text \<open>
  The loop over the rows \<open>data[1]\<close>, \<open>data[2]\<close>, ... of a sheet; \<open>dataRows\<close> is the data
  without its header row.
\<close>

definition processRows ::
  "platform \<Rightarrow> string \<Rightarrow> string \<Rightarrow> nat \<Rightarrow> columns \<Rightarrow> event_rec list \<times> grid option \<Rightarrow> jsval list list
     \<Rightarrow> event_rec list \<times> grid option" where
  "processRows P stamp sheetName sheetIdent cols st dataRows =
     foldl (processRow P stamp sheetName sheetIdent cols) st (List.enumerate 1 dataRows)"

section \<open>Concrete states\<close>

text \<open>An error sheet with two sync errors and one data error under its header.\<close>

definition errorSheet0 :: grid where
  "errorSheet0 = gridOfRows 5 6
     [errorHeader,
      [VStr ''t1'', VStr ''SYNC_GCAL'', VStr ''Chorale'', VNum 4, VStr ''a'', VStr ''b''],
      [VStr ''t2'', VStr ''DONNEES'', VStr ''Chorale'', VNum 7, VStr ''c'', VStr ''d''],
      [VStr ''t3'', VStr ''SYNC_GCAL'', VStr ''Jeunes'', VStr [], VStr ''e'', VStr ''f'']]"


text \<open>
  A platform and a calendar for concrete runs. The platform prints a time value in
  decimal digits and takes as digest the codes of the last 16 characters of its input;
  the calendar numbers its events and throws at its first \<open>failures\<close> calls.
\<close>

definition testPlatform :: platform where
  "testPlatform =
     \<lparr>computeDigestMD5 = \<lambda>s. map (\<lambda>c. of_nat (of_char c)) (take 16 (rev s @ replicate 16 CHR ''0'')),
      toISOString = \<lambda>t. (if t < 0 then ''-'' else ''+'') @ decimal (nat \<bar>t\<bar>) @ ''Z'',
      formatDateGMT = \<lambda>t. decimal (nat (t div 86400000)),
      toLocaleString = \<lambda>t. decimal (nat t),
      toLocaleDateString = \<lambda>t. decimal (nat (t div 86400000)),
      dateToString = \<lambda>t. decimal (nat t),
      numberToString = \<lambda>r. decimal (nat \<lfloor>r\<rfloor>),
      dateParse = \<lambda>s. if s = ''2025-03-15'' then Some 1741968000000 else None,
      normalizeNFD = \<lambda>s. s,
      tzOffset = 28800000\<rparr>"



record cal_state =
  failures :: nat
  nextId :: nat
  ids :: "string list"

definition testCalendar :: "cal_state calendarApp" where
  "testCalendar =
     \<lparr>createEvent = \<lambda>c title start end' description.
        if failures c > 0 then (Inl ''Service error'', c\<lparr>failures := failures c - 1\<rparr>)
        else (Inr (''ev'' @ decimal (nextId c)),
              c\<lparr>nextId := nextId c + 1, ids := ids c @ [''ev'' @ decimal (nextId c)]\<rparr>),
      createAllDayEvent = \<lambda>c title start end' description.
        if failures c > 0 then (Inl ''Service error'', c\<lparr>failures := failures c - 1\<rparr>)
        else (Inr (''ev'' @ decimal (nextId c)),
              c\<lparr>nextId := nextId c + 1, ids := ids c @ [''ev'' @ decimal (nextId c)]\<rparr>),
      getEventById = \<lambda>c gcalId.
        if failures c > 0 then (Inl ''Service error'', c\<lparr>failures := failures c - 1\<rparr>)
        else (Inr (gcalId \<in> set (ids c)), c),
      deleteEvent = \<lambda>c gcalId.
        if failures c > 0 then (Some ''Service error'', c\<lparr>failures := failures c - 1\<rparr>)
        else (None, c\<lparr>ids := removeAll gcalId (ids c)\<rparr>)\<rparr>"

definition event1 :: event_rec where
  "event1 = \<lparr>date = 1741968000000, startDate = 1741968000000, endDate = None, hasTime = False,
     service = ''Messe'', event = ''Concert'', department = ''Chorale'', sheetId = 11,
     rowIndex = 2, surSiteCCFHK = True, surCalendrierExcel = True, surCalendrierExcelRaw = ''oui''\<rparr>"

definition event2 :: event_rec where
  "event2 = \<lparr>date = 1742054400000, startDate = 1742054400000, endDate = Some 1742061600000,
     hasTime = True, service = [], event = ''Reunion'', department = ''Jeunes'', sheetId = 12,
     rowIndex = 5, surSiteCCFHK = True, surCalendrierExcel = False, surCalendrierExcelRaw = []\<rparr>"


definition entryA :: tracking_entry where
  "entryA = \<lparr>gcalEventId = ''ev0'', entryDepartment = ''Chorale'', eventDate = ''2025-03-14'',
     lastSynced = 1741000000000\<rparr>"

definition entryB :: tracking_entry where
  "entryB = \<lparr>gcalEventId = ''ev1'', entryDepartment = ''Jeunes'', eventDate = ''2025-01-10'',
     lastSynced = 1741000000000\<rparr>"

text \<open>A spreadsheet without tracking sheet and an empty calendar that fails \<open>k\<close> times.\<close>

definition worldEmpty :: "nat \<Rightarrow> cal_state world" where
  "worldEmpty k = \<lparr>calendar = \<lparr>failures = k, nextId = 0, ids = []\<rparr>, apiCalls = [],
     errorSheet = None, syncSheet = None, logger = []\<rparr>"

text \<open>
  A spreadsheet that tracks \<open>event1\<close> and an event that is gone from the sheets, with
  the two calendar events.
\<close>

definition worldTracked :: "nat \<Rightarrow> cal_state world" where
  "worldTracked k = \<lparr>calendar = \<lparr>failures = k, nextId = 2, ids = [''ev0'', ''ev1'']\<rparr>, apiCalls = [],
     errorSheet = None,
     syncSheet = Some [(computeEventHash testPlatform event1, entryA), (''stale'', entryB)],
     logger = []\<rparr>"

section \<open>Notions for the theorems on the grid\<close>

text \<open>
  The cells of a month in reading order, counted from 0: with \<open>s\<close> blank cells before day
  1 and \<open>n\<close> days, the cell at position \<open>idx\<close>, the value of \<open>currentDay\<close> before that
  position, and the row of week \<open>w\<close>.
\<close>

definition gridCell :: "(nat \<Rightarrow> day_cell) \<Rightarrow> nat \<Rightarrow> nat \<Rightarrow> nat \<Rightarrow> day_cell" where
  "gridCell mkCell s n idx = (if s \<le> idx \<and> idx < s + n then mkCell (idx - s + 1) else blankDayCell)"

definition dayAfter :: "nat \<Rightarrow> nat \<Rightarrow> nat \<Rightarrow> nat" where
  "dayAfter s n idx = 1 + min n (idx - s)"

definition gridRow :: "(nat \<Rightarrow> day_cell) \<Rightarrow> nat \<Rightarrow> nat \<Rightarrow> nat \<Rightarrow> day_cell list" where
  "gridRow mkCell s n w = map (\<lambda>j. gridCell mkCell s n (7 * w + j)) [0..<7]"

section \<open>Clearing the errors of one type\<close>

lemma length_getValues [simp]: "length (getValues g r c nr nc) = nr"
  by (simp add: getValues_def)

lemma nth_getValues:
  "i < nr \<Longrightarrow> getValues g r c nr nc ! i = map (\<lambda>j. cell g (r + i) (c + j)) [0..<nc]"
  by (simp add: getValues_def)

lemma getValues_row_length: "row \<in> set (getValues g r c nr nc) \<Longrightarrow> length row = nc"
  by (auto simp: getValues_def)

lemma row_as_map: "length row = n \<Longrightarrow> map (\<lambda>j. row ! j) [0..<n] = row"
  by (auto intro: nth_equalityI)

lemma getValues_after_rewrite:
  assumes rows: "\<forall>row \<in> set kept. length row = nc" and k: "length kept \<le> n"
  shows "getValues (setValues (clearRange g r c n nc) r c (length kept) nc kept) r c n nc
         = kept @ replicate (n - length kept) (replicate nc blankCell)"
    (is "?lhs = ?rhs")
proof (rule nth_equalityI)
  show "length ?lhs = length ?rhs"
    using k by simp
next
  fix i
  assume "i < length ?lhs"
  then have i: "i < n" by simp
  show "?lhs ! i = ?rhs ! i"
  proof (cases "i < length kept")
    case True
    then have len: "length (kept ! i) = nc" using rows by simp
    have "?lhs ! i = map (\<lambda>j. kept ! i ! j) [0..<nc]"
      using True i by (simp add: nth_getValues setValues_def inRange_def)
    also have "\<dots> = kept ! i" using len by (rule row_as_map)
    finally show ?thesis using True by (simp add: nth_append)
  next
    case False
    have "?lhs ! i = map (\<lambda>j. blankCell) [0..<nc]"
      using False i by (simp add: nth_getValues setValues_def clearRange_def inRange_def)
    also have "\<dots> = replicate nc blankCell" by (simp add: map_replicate_const)
    finally show ?thesis using False i by (simp add: nth_append)
  qed
qed

lemma getValues_clearRange:
  "getValues (clearRange g r c n nc) r c n nc = replicate n (replicate nc blankCell)"
  by (auto simp: getValues_def clearRange_def inRange_def map_replicate_const intro!: nth_equalityI)

lemma clearErrorsByType_Some:
  "clearErrorsByType ty (Some g) =
     Some (if getLastRow g \<le> 1 then g
           else if filter (\<lambda>row. row ! 1 \<noteq> VStr ty) (getValues g 2 1 (getLastRow g - 1) 6) \<noteq> []
           then setValues (clearRange g 2 1 (getLastRow g - 1) 6) 2 1
                  (length (filter (\<lambda>row. row ! 1 \<noteq> VStr ty) (getValues g 2 1 (getLastRow g - 1) 6))) 6
                  (filter (\<lambda>row. row ! 1 \<noteq> VStr ty) (getValues g 2 1 (getLastRow g - 1) 6))
           else clearRange g 2 1 (getLastRow g - 1) 6)"
  by (simp add: clearErrorsByType_def Let_def)

lemma cell_outside_setValues:
  "\<not> inRange r c nr nc i j \<Longrightarrow> cell (setValues g r c nr nc vals) i j = cell g i j"
  by (simp add: setValues_def)

lemma cell_outside_clearRange:
  "\<not> inRange r c nr nc i j \<Longrightarrow> cell (clearRange g r c nr nc) i j = cell g i j"
  by (simp add: clearRange_def)

lemma inRange_fewer_rows: "k \<le> n \<Longrightarrow> inRange r c k nc i j \<Longrightarrow> inRange r c n nc i j"
  by (simp add: inRange_def)

lemma dims_setValues [simp]:
  "maxRows (setValues g r c nr nc vals) = maxRows g"
  "maxColumns (setValues g r c nr nc vals) = maxColumns g"
  by (simp_all add: setValues_def)

lemma dims_clearRange [simp]:
  "maxRows (clearRange g r c nr nc) = maxRows g"
  "maxColumns (clearRange g r c nr nc) = maxColumns g"
  by (simp_all add: clearRange_def)


text \<open>
  Claim C9. \<open>clearErrorsByType\<close> on an existing error sheet with \<open>n\<close> data rows (rows 2
  to \<open>getLastRow\<close>) leaves in these rows exactly the rows whose type column (the second
  cell) differs from the given type, in their original order, followed by as many blank
  rows as rows were removed; every cell outside the six columns of these rows, the header
  included, and the size of the sheet are unchanged.
\<close>

theorem clearErrorsByType_removes_exactly:
  "\<exists>g'. clearErrorsByType ty (Some g) = Some g' \<and>
     getValues g' 2 1 (getLastRow g - 1) 6
       = filter (\<lambda>row. row ! 1 \<noteq> VStr ty) (getValues g 2 1 (getLastRow g - 1) 6)
         @ replicate (length (filter (\<lambda>row. row ! 1 = VStr ty) (getValues g 2 1 (getLastRow g - 1) 6)))
             (replicate 6 blankCell) \<and>
     (\<forall>i j. \<not> inRange 2 1 (getLastRow g - 1) 6 i j \<longrightarrow> cell g' i j = cell g i j) \<and>
     maxRows g' = maxRows g \<and> maxColumns g' = maxColumns g"
proof -
  define n where "n = getLastRow g - 1"
  define data where "data = getValues g 2 1 n 6"
  define kept where "kept = filter (\<lambda>row. row ! 1 \<noteq> VStr ty) data"
  define gone where "gone = length (filter (\<lambda>row. row ! 1 = VStr ty) data)"
  have len: "length kept + gone = n"
    using sum_length_filter_compl [of "\<lambda>row. row ! 1 = VStr ty" data]
    by (simp add: kept_def data_def gone_def)
  have rows: "\<forall>row \<in> set kept. length row = 6"
    by (auto simp: kept_def data_def dest: getValues_row_length)
  have res: "clearErrorsByType ty (Some g) =
     Some (if getLastRow g \<le> 1 then g
           else if kept \<noteq> [] then setValues (clearRange g 2 1 n 6) 2 1 (length kept) 6 kept
           else clearRange g 2 1 n 6)"
    unfolding kept_def data_def n_def by (rule clearErrorsByType_Some)
  have goal: "getValues g' 2 1 n 6 = kept @ replicate gone (replicate 6 blankCell) \<and>
     (\<forall>i j. \<not> inRange 2 1 n 6 i j \<longrightarrow> cell g' i j = cell g i j) \<and>
     maxRows g' = maxRows g \<and> maxColumns g' = maxColumns g"
    if g': "g' = (if getLastRow g \<le> 1 then g
           else if kept \<noteq> [] then setValues (clearRange g 2 1 n 6) 2 1 (length kept) 6 kept
           else clearRange g 2 1 n 6)" for g'
  proof (cases "getLastRow g \<le> 1")
    case True
    then have "n = 0" by (simp add: n_def)
    then show ?thesis using True g' len by (simp add: getValues_def)
  next
    case False
    show ?thesis
    proof (cases "kept = []")
      case True
      then have "gone = n" using len by simp
      then show ?thesis using False True g'
        by (simp add: getValues_clearRange cell_outside_clearRange)
    next
      case nonempty: False
      have k: "length kept \<le> n" using len by simp
      have eq: "n - length kept = gone" using len by simp
      have "getValues g' 2 1 n 6 = kept @ replicate gone (replicate 6 blankCell)"
        using getValues_after_rewrite [OF rows k, of g 2 1] False nonempty g' eq by simp
      moreover have "cell g' i j = cell g i j" if "\<not> inRange 2 1 n 6 i j" for i j
      proof -
        have "\<not> inRange 2 1 (length kept) 6 i j"
          using that k inRange_fewer_rows by blast
        then show ?thesis using that False nonempty g'
          by (simp add: cell_outside_setValues cell_outside_clearRange)
      qed
      ultimately show ?thesis using False nonempty g' by simp
    qed
  qed
  show ?thesis
    using goal [OF refl] res
    unfolding kept_def gone_def data_def n_def by simp
qed


theorem clearErrorsByType_removes_exactly_witness: "\<exists>g'. clearErrorsByType ''SYNC_GCAL'' (Some errorSheet0) = Some g' \<and>
   getValues g' 2 1 3 6 = [[VStr ''t2'', VStr ''DONNEES'', VStr ''Chorale'', VNum 7, VStr ''c'', VStr ''d''],
     replicate 6 blankCell, replicate 6 blankCell] \<and> cell g' 1 2 = VStr ''Type''"
proof -
  have lr: "getLastRow errorSheet0 = 4" by code_simp
  have d: "getValues errorSheet0 2 (Suc 0) 3 6 =
     [[VStr ''t1'', VStr ''SYNC_GCAL'', VStr ''Chorale'', VNum 4, VStr ''a'', VStr ''b''],
      [VStr ''t2'', VStr ''DONNEES'', VStr ''Chorale'', VNum 7, VStr ''c'', VStr ''d''],
      [VStr ''t3'', VStr ''SYNC_GCAL'', VStr ''Jeunes'', VStr [], VStr ''e'', VStr ''f'']]"
    by code_simp
  have h: "cell errorSheet0 (Suc 0) 2 = VStr ''Type''" by code_simp
  have nr: "\<not> inRange 2 (Suc 0) 3 6 (Suc 0) 2" by (simp add: inRange_def)
  from clearErrorsByType_removes_exactly [of "''SYNC_GCAL''" errorSheet0]
  show ?thesis using nr h by (auto simp: lr d)
qed

section \<open>The content hash\<close>

lemma hashInput_eq:
  "hashInput P e = department e @ ''|'' @ toISOString P (startDate e) @ ''|''
     @ (case endDate e of Some d \<Rightarrow> toISOString P d | None \<Rightarrow> []) @ ''|'' @ service e @ ''|''
     @ event e @ ''|'' @ (if surSiteCCFHK e then ''1'' else ''0'')"
  by (simp add: hashInput_def Let_def)

lemma length_toString16: "length (toString16 n) = (if n < 16 then 1 else 2)"
  by (simp add: toString16_def)

lemma length_byteHex [simp]: "length (byteHex b) = 2"
  by (simp add: byteHex_def Let_def length_toString16)










lemma length_concat_byteHex: "length (concat (map byteHex bs)) = 2 * length bs"
  by (induction bs) simp_all

text \<open>
  Claim C10. The hashed string is not injective in the content fields: the fields are
  joined with \<open>|\<close> and not escaped, so an event with service \<open>a|b\<close> and title \<open>c\<close> and
  an event with service \<open>a\<close> and title \<open>b|c\<close>, equal in every other field, differ in both
  fields and have the same hashed string, hence the same hash, whatever the platform.
\<close>

theorem hashInput_separator_collision:
  "service (e\<lparr>service := ''a|b'', event := ''c''\<rparr>) \<noteq> service (e\<lparr>service := ''a'', event := ''b|c''\<rparr>) \<and>
   event (e\<lparr>service := ''a|b'', event := ''c''\<rparr>) \<noteq> event (e\<lparr>service := ''a'', event := ''b|c''\<rparr>) \<and>
   hashInput P (e\<lparr>service := ''a|b'', event := ''c''\<rparr>)
     = hashInput P (e\<lparr>service := ''a'', event := ''b|c''\<rparr>) \<and>
   computeEventHash P (e\<lparr>service := ''a|b'', event := ''c''\<rparr>)
     = computeEventHash P (e\<lparr>service := ''a'', event := ''b|c''\<rparr>)"
  by (simp add: hashInput_eq computeEventHash_def)








section \<open>Sensitivity of the hash\<close>













section \<open>Maps in insertion order\<close>

lemma map_of_map_set: "map_of (map_set k v m) = (map_of m)(k \<mapsto> v)"
  by (induction m) (auto simp: fun_eq_iff)

lemma map_fst_map_set:
  "map fst (map_set k v m) = (if k \<in> set (map fst m) then map fst m else map fst m @ [k])"
proof (induction m)
  case Nil
  show ?case by simp
next
  case (Cons kv m)
  obtain k' v' where kv: "kv = (k', v')" by (cases kv)
  show ?case
  proof (cases "k = k'")
    case True
    then show ?thesis using kv by simp
  next
    case False
    then show ?thesis using kv Cons.IH by simp
  qed
qed

lemma keys_map_set: "fst ` set (map_set k v m) = insert k (fst ` set m)"
proof -
  have "set (map fst (map_set k v m)) = insert k (set (map fst m))"
    unfolding map_fst_map_set by auto
  then show ?thesis by simp
qed

lemma distinct_map_set: "distinct (map fst m) \<Longrightarrow> distinct (map fst (map_set k v m))"
  unfolding map_fst_map_set by simp

lemma map_set_fresh: "k \<notin> fst ` set m \<Longrightarrow> map_set k v m = m @ [(k, v)]"
  by (induction m) auto

lemma map_of_eq_None_keys: "map_of m k = None \<longleftrightarrow> k \<notin> fst ` set m"
  by (simp add: map_of_eq_None_iff)

section \<open>One event of the reconciliation loop\<close>

lemma syncEvent_hit:
  assumes "map_of T (computeEventHash P e) = Some x"
  shows "syncEvent P S now T v e =
     v\<lparr>seenHashes := List.insert (computeEventHash P e) (seenHashes v),
       newTrackingMap := map_set (computeEventHash P e) x (newTrackingMap v),
       unchanged := unchanged v + 1\<rparr>"
  using assms by (simp add: syncEvent_def Let_def map_get_def)

lemma syncEvent_created:
  assumes "map_of T (computeEventHash P e) = None"
    and "createCalendarEvent S (calendar (world v)) e = (Inr newId, cal', calls)"
  shows "syncEvent P S now T v e =
     v\<lparr>seenHashes := List.insert (computeEventHash P e) (seenHashes v),
       newTrackingMap := map_set (computeEventHash P e)
          \<lparr>gcalEventId = newId, entryDepartment = department e,
           eventDate = formatDateGMT P (date e), lastSynced = now\<rparr> (newTrackingMap v),
       created := created v + 1,
       world := (world v)\<lparr>calendar := cal', apiCalls := apiCalls (world v) @ calls\<rparr>\<rparr>"
  using assms by (simp add: syncEvent_def Let_def map_get_def)

lemma syncEvent_failed:
  assumes "map_of T (computeEventHash P e) = None"
    and "createCalendarEvent S (calendar (world v)) e = (Inl msg, cal', calls)"
  shows "syncEvent P S now T v e =
     v\<lparr>seenHashes := List.insert (computeEventHash P e) (seenHashes v),
       syncErrors := syncErrors v + 1,
       world := (world v)\<lparr>calendar := cal', apiCalls := apiCalls (world v) @ calls,
         errorSheet := logError (toLocaleString P now) (errorSheet (world v)) ''SYNC_GCAL''
           (department e) (VNum (of_nat (rowIndex e)))
           ([CHR 0xC9] @ ''chec synchronisation Google Calendar'')
           ([CHR 0xC9] @ ''v'' @ [CHR 0xE9] @ ''nement: '' @ [CHR 0x22] @ eventTitleOf e @ [CHR 0x22] @ '', Erreur: '' @ msg)\<rparr>\<rparr>"
  using assms by (simp add: syncEvent_def Let_def map_get_def)

text \<open>The three ways an event leaves the loop body.\<close>

lemma syncEvent_cases:
  obtains (hit) x where "map_of T (computeEventHash P e) = Some x"
  | (created) newId cal' calls where "map_of T (computeEventHash P e) = None"
      "createCalendarEvent S (calendar (world v)) e = (Inr newId, cal', calls)"
  | (failed) msg cal' calls where "map_of T (computeEventHash P e) = None"
      "createCalendarEvent S (calendar (world v)) e = (Inl msg, cal', calls)"
proof (cases "map_of T (computeEventHash P e)")
  case (Some x)
  then show ?thesis by (rule hit)
next
  case None
  obtain r cal' calls where r: "createCalendarEvent S (calendar (world v)) e = (r, cal', calls)"
    by (cases "createCalendarEvent S (calendar (world v)) e") auto
  show ?thesis
  proof (cases r)
    case (Inl msg)
    then show ?thesis using None r failed by simp
  next
    case (Inr newId)
    then show ?thesis using None r created by simp
  qed
qed

lemma syncEvent_seen:
  "set (seenHashes (syncEvent P S now T v e)) = insert (computeEventHash P e) (set (seenHashes v))"
  by (cases rule: syncEvent_cases [where T = T and P = P and e = e and S = S and v = v])
     (simp_all add: syncEvent_hit syncEvent_created syncEvent_failed)

lemma syncEvent_counts:
  "created (syncEvent P S now T v e) + unchanged (syncEvent P S now T v e)
     + syncErrors (syncEvent P S now T v e) = created v + unchanged v + syncErrors v + 1"
  by (cases rule: syncEvent_cases [where T = T and P = P and e = e and S = S and v = v])
     (simp_all add: syncEvent_hit syncEvent_created syncEvent_failed)

lemma syncEvent_errors_mono: "syncErrors v \<le> syncErrors (syncEvent P S now T v e)"
  by (cases rule: syncEvent_cases [where T = T and P = P and e = e and S = S and v = v])
     (simp_all add: syncEvent_hit syncEvent_created syncEvent_failed)

lemma syncEvent_other_key:
  "k \<noteq> computeEventHash P e \<Longrightarrow>
     map_of (newTrackingMap (syncEvent P S now T v e)) k = map_of (newTrackingMap v) k"
  by (cases rule: syncEvent_cases [where T = T and P = P and e = e and S = S and v = v])
     (simp_all add: syncEvent_hit syncEvent_created syncEvent_failed map_of_map_set)

lemma syncEvent_keys_mono:
  "fst ` set (newTrackingMap v) \<subseteq> fst ` set (newTrackingMap (syncEvent P S now T v e))"
  by (cases rule: syncEvent_cases [where T = T and P = P and e = e and S = S and v = v])
     (auto simp: syncEvent_hit syncEvent_created syncEvent_failed keys_map_set)

lemma syncEvent_keys_upper:
  "fst ` set (newTrackingMap (syncEvent P S now T v e))
     \<subseteq> insert (computeEventHash P e) (fst ` set (newTrackingMap v))"
  by (cases rule: syncEvent_cases [where T = T and P = P and e = e and S = S and v = v])
     (auto simp: syncEvent_hit syncEvent_created syncEvent_failed keys_map_set)

lemma syncEvent_distinct:
  "distinct (map fst (newTrackingMap v)) \<Longrightarrow>
     distinct (map fst (newTrackingMap (syncEvent P S now T v e)))"
  by (cases rule: syncEvent_cases [where T = T and P = P and e = e and S = S and v = v])
     (simp_all add: syncEvent_hit syncEvent_created syncEvent_failed distinct_map_set)

lemma syncEvent_no_error_key:
  "syncErrors (syncEvent P S now T v e) = syncErrors v \<Longrightarrow>
     computeEventHash P e \<in> fst ` set (newTrackingMap (syncEvent P S now T v e))"
  by (cases rule: syncEvent_cases [where T = T and P = P and e = e and S = S and v = v])
     (simp_all add: syncEvent_hit syncEvent_created syncEvent_failed keys_map_set)

lemma syncEvent_frame:
  "syncSheet (world (syncEvent P S now T v e)) = syncSheet (world v) \<and>
   logger (world (syncEvent P S now T v e)) = logger (world v)"
  by (cases rule: syncEvent_cases [where T = T and P = P and e = e and S = S and v = v])
     (simp_all add: syncEvent_hit syncEvent_created syncEvent_failed)

lemma syncEvent_entry:
  assumes "map_of (newTrackingMap (syncEvent P S now T v e)) (computeEventHash P e) = Some x"
  shows "(case map_of T (computeEventHash P e) of
            Some y \<Rightarrow> x = y
          | None \<Rightarrow> map_of (newTrackingMap v) (computeEventHash P e) = Some x \<or>
              (lastSynced x = now \<and> entryDepartment x = department e \<and>
               eventDate x = formatDateGMT P (date e)))"
  using assms
  by (cases rule: syncEvent_cases [where T = T and P = P and e = e and S = S and v = v])
     (auto simp: syncEvent_hit syncEvent_created syncEvent_failed map_of_map_set)

section \<open>The loop over the events to sync\<close>

lemma foldl_syncEvent_seen:
  "set (seenHashes (foldl (syncEvent P S now T) v es))
     = set (seenHashes v) \<union> computeEventHash P ` set es"
  by (induction es rule: rev_induct) (auto simp: syncEvent_seen)

lemma foldl_syncEvent_counts:
  "created (foldl (syncEvent P S now T) v es) + unchanged (foldl (syncEvent P S now T) v es)
     + syncErrors (foldl (syncEvent P S now T) v es)
   = created v + unchanged v + syncErrors v + length es"
  by (induction es rule: rev_induct) (simp_all add: syncEvent_counts)

lemma foldl_syncEvent_errors_mono:
  "syncErrors v \<le> syncErrors (foldl (syncEvent P S now T) v es)"
proof (induction es rule: rev_induct)
  case Nil
  show ?case by simp
next
  case (snoc e es)
  have "syncErrors (foldl (syncEvent P S now T) v es)
          \<le> syncErrors (syncEvent P S now T (foldl (syncEvent P S now T) v es) e)"
    by (rule syncEvent_errors_mono)
  with snoc show ?case by simp
qed

lemma foldl_syncEvent_keys_upper:
  "fst ` set (newTrackingMap (foldl (syncEvent P S now T) v es))
     \<subseteq> fst ` set (newTrackingMap v) \<union> computeEventHash P ` set es"
proof (induction es rule: rev_induct)
  case Nil
  show ?case by simp
next
  case (snoc e es)
  have "fst ` set (newTrackingMap (syncEvent P S now T (foldl (syncEvent P S now T) v es) e))
          \<subseteq> insert (computeEventHash P e)
               (fst ` set (newTrackingMap (foldl (syncEvent P S now T) v es)))"
    by (rule syncEvent_keys_upper)
  moreover have "foldl (syncEvent P S now T) v (es @ [e])
       = syncEvent P S now T (foldl (syncEvent P S now T) v es) e" by simp
  moreover have "computeEventHash P ` set (es @ [e])
       = insert (computeEventHash P e) (computeEventHash P ` set es)" by simp
  ultimately show ?case using snoc by (simp only:) blast
qed

lemma foldl_syncEvent_distinct:
  "distinct (map fst (newTrackingMap v)) \<Longrightarrow>
     distinct (map fst (newTrackingMap (foldl (syncEvent P S now T) v es)))"
  by (induction es rule: rev_induct) (simp_all add: syncEvent_distinct)

lemma foldl_syncEvent_frame:
  "syncSheet (world (foldl (syncEvent P S now T) v es)) = syncSheet (world v) \<and>
   logger (world (foldl (syncEvent P S now T) v es)) = logger (world v)"
  by (induction es rule: rev_induct) (simp_all add: syncEvent_frame)

lemma foldl_syncEvent_other_key:
  "k \<notin> computeEventHash P ` set es \<Longrightarrow>
     map_of (newTrackingMap (foldl (syncEvent P S now T) v es)) k = map_of (newTrackingMap v) k"
  by (induction es rule: rev_induct) (simp_all add: syncEvent_other_key)

lemma foldl_syncEvent_carried:
  assumes "map_of T h = Some x" and "h \<in> computeEventHash P ` set es"
  shows "map_of (newTrackingMap (foldl (syncEvent P S now T) v es)) h = Some x"
  using assms(2)
proof (induction es rule: rev_induct)
  case Nil
  then show ?case by simp
next
  case (snoc e es)
  show ?case
  proof (cases "h = computeEventHash P e")
    case True
    then show ?thesis using assms(1) by (simp add: syncEvent_hit map_of_map_set)
  next
    case False
    then have "h \<in> computeEventHash P ` set es" using snoc.prems by auto
    then show ?thesis using False snoc.IH by (simp add: syncEvent_other_key)
  qed
qed

lemma foldl_syncEvent_entry:
  assumes "map_of (newTrackingMap (foldl (syncEvent P S now T) v es)) h = Some x"
  shows "map_of (newTrackingMap v) h = Some x \<or>
     (h \<in> computeEventHash P ` set es \<and>
      (case map_of T h of
         Some y \<Rightarrow> x = y
       | None \<Rightarrow> lastSynced x = now \<and>
           (\<exists>e \<in> set es. computeEventHash P e = h \<and> entryDepartment x = department e \<and>
              eventDate x = formatDateGMT P (date e))))"
  using assms
proof (induction es arbitrary: x rule: rev_induct)
  case Nil
  then show ?case by simp
next
  case (snoc e es)
  let ?v = "foldl (syncEvent P S now T) v es"
  show ?case
  proof (cases "h = computeEventHash P e")
    case False
    then have "map_of (newTrackingMap ?v) h = Some x"
      using snoc.prems by (simp add: syncEvent_other_key)
    from snoc.IH [OF this] show ?thesis by (auto split: option.splits)
  next
    case True
    have new: "map_of (newTrackingMap (syncEvent P S now T ?v e)) (computeEventHash P e) = Some x"
      using snoc.prems True by simp
    show ?thesis
    proof (cases "map_of T h")
      case (Some y)
      then have "x = y" using syncEvent_entry [OF new] True by simp
      then show ?thesis using Some True by simp
    next
      case None
      then have "map_of (newTrackingMap ?v) h = Some x \<or>
          (lastSynced x = now \<and> entryDepartment x = department e \<and>
           eventDate x = formatDateGMT P (date e))"
        using syncEvent_entry [OF new] True by simp
      then show ?thesis
      proof
        assume "map_of (newTrackingMap ?v) h = Some x"
        from snoc.IH [OF this] show ?thesis using None by auto
      next
        assume "lastSynced x = now \<and> entryDepartment x = department e \<and>
           eventDate x = formatDateGMT P (date e)"
        then show ?thesis using None True by auto
      qed
    qed
  qed
qed

lemma foldl_syncEvent_no_error_keys:
  assumes "syncErrors (foldl (syncEvent P S now T) v es) = syncErrors v"
  shows "computeEventHash P ` set es
           \<subseteq> fst ` set (newTrackingMap (foldl (syncEvent P S now T) v es))"
  using assms
proof (induction es rule: rev_induct)
  case Nil
  show ?case by simp
next
  case (snoc e es)
  let ?v = "foldl (syncEvent P S now T) v es"
  have m1: "syncErrors v \<le> syncErrors ?v" by (rule foldl_syncEvent_errors_mono)
  have m2: "syncErrors ?v \<le> syncErrors (syncEvent P S now T ?v e)" by (rule syncEvent_errors_mono)
  have last: "syncErrors (syncEvent P S now T ?v e) = syncErrors v" using snoc.prems by simp
  have e1: "syncErrors ?v = syncErrors v" using m1 m2 last by simp
  have e2: "syncErrors (syncEvent P S now T ?v e) = syncErrors ?v" using m1 m2 last by simp
  have "computeEventHash P ` set es \<subseteq> fst ` set (newTrackingMap ?v)"
    using snoc.IH e1 by simp
  moreover have "fst ` set (newTrackingMap ?v) \<subseteq> fst ` set (newTrackingMap (syncEvent P S now T ?v e))"
    by (rule syncEvent_keys_mono)
  moreover have "computeEventHash P e \<in> fst ` set (newTrackingMap (syncEvent P S now T ?v e))"
    using e2 by (rule syncEvent_no_error_key)
  moreover have "foldl (syncEvent P S now T) v (es @ [e])
       = syncEvent P S now T ?v e" by simp
  moreover have "computeEventHash P ` set (es @ [e])
       = insert (computeEventHash P e) (computeEventHash P ` set es)" by simp
  ultimately show ?case by (simp only:) blast
qed

lemma foldl_syncEvent_all_hits:
  assumes "\<forall>e \<in> set es. map_of T (computeEventHash P e) \<noteq> None"
  shows "world (foldl (syncEvent P S now T) v es) = world v \<and>
         created (foldl (syncEvent P S now T) v es) = created v \<and>
         syncErrors (foldl (syncEvent P S now T) v es) = syncErrors v \<and>
         unchanged (foldl (syncEvent P S now T) v es) = unchanged v + length es"
  using assms
proof (induction es rule: rev_induct)
  case Nil
  show ?case by simp
next
  case (snoc e es)
  then obtain x where "map_of T (computeEventHash P e) = Some x" by auto
  then show ?case using snoc by (simp add: syncEvent_hit)
qed

section \<open>The loop over the old tracking entries\<close>

lemma deleteStale_seen: "h \<in> set seen \<Longrightarrow> deleteStale S seen (d, w) (h, x) = (d, w)"
  by (simp add: deleteStale_def)

lemma deleteStale_stale:
  "h \<notin> set seen \<Longrightarrow>
     fst (deleteStale S seen (d, w) (h, x)) = d + 1 \<and>
     syncSheet (snd (deleteStale S seen (d, w) (h, x))) = syncSheet w \<and>
     errorSheet (snd (deleteStale S seen (d, w) (h, x))) = errorSheet w"
  by (simp add: deleteStale_def split: prod.splits)

lemma foldl_deleteStale:
  "fst (foldl (deleteStale S seen) (d, w) T) = d + length (filter (\<lambda>kv. fst kv \<notin> set seen) T) \<and>
   syncSheet (snd (foldl (deleteStale S seen) (d, w) T)) = syncSheet w \<and>
   errorSheet (snd (foldl (deleteStale S seen) (d, w) T)) = errorSheet w"
proof (induction T rule: rev_induct)
  case Nil
  show ?case by simp
next
  case (snoc kv T)
  obtain d' w' where acc: "foldl (deleteStale S seen) (d, w) T = (d', w')"
    by (cases "foldl (deleteStale S seen) (d, w) T")
  obtain h x where kv: "kv = (h, x)" by (cases kv)
  show ?case
  proof (cases "h \<in> set seen")
    case True
    then show ?thesis using snoc acc kv by (simp add: deleteStale_seen)
  next
    case False
    then show ?thesis using snoc acc kv deleteStale_stale [OF False, of S d' w' x] by simp
  qed
qed

lemma foldl_deleteStale_none:
  "\<forall>kv \<in> set T. fst kv \<in> set seen \<Longrightarrow> foldl (deleteStale S seen) (d, w) T = (d, w)"
proof (induction T rule: rev_induct)
  case Nil
  show ?case by simp
next
  case (snoc kv T)
  obtain h x where kv: "kv = (h, x)" by (cases kv)
  then have "h \<in> set seen" using snoc.prems by auto
  then show ?case using snoc kv by (simp add: deleteStale_seen)
qed

section \<open>A whole run\<close>

lemma reconcile_eq:
  "reconcile P S now allEvents w0 =
     (let T = getSyncTrackingData (syncSheet w0);
          v = foldl (syncEvent P S now T)
                \<lparr>seenHashes = [], newTrackingMap = [], created = 0, unchanged = 0,
                 syncErrors = 0, world = w0\<rparr> (filter (\<lambda>e. surSiteCCFHK e = True) allEvents);
          dl = foldl (deleteStale S (seenHashes v)) (0, world v) T
      in (\<lparr>resCreated = created v, resUnchanged = unchanged v, resDeleted = fst dl,
           resErrors = syncErrors v\<rparr>,
          (snd dl)\<lparr>syncSheet := Some (newTrackingMap v)\<rparr>))"
  by (simp add: reconcile_def Let_def split_beta writeSyncTracking_def)

lemma syncEvent_key_order:
  assumes "syncErrors (syncEvent P S now T v e) = syncErrors v"
  shows "map fst (newTrackingMap (syncEvent P S now T v e)) =
     (if computeEventHash P e \<in> set (map fst (newTrackingMap v)) then map fst (newTrackingMap v)
      else map fst (newTrackingMap v) @ [computeEventHash P e])"
  using assms
  by (cases rule: syncEvent_cases [where T = T and P = P and e = e and S = S and v = v])
     (simp_all add: syncEvent_hit syncEvent_created syncEvent_failed map_fst_map_set)

lemma foldl_syncEvent_key_order:
  assumes "syncErrors (foldl (syncEvent P S now T) v es) = syncErrors v"
  shows "map fst (newTrackingMap (foldl (syncEvent P S now T) v es)) =
     foldl (\<lambda>ks e. if computeEventHash P e \<in> set ks then ks else ks @ [computeEventHash P e])
       (map fst (newTrackingMap v)) es"
  using assms
proof (induction es rule: rev_induct)
  case Nil
  show ?case by simp
next
  case (snoc e es)
  let ?v = "foldl (syncEvent P S now T) v es"
  have m1: "syncErrors v \<le> syncErrors ?v" by (rule foldl_syncEvent_errors_mono)
  have m2: "syncErrors ?v \<le> syncErrors (syncEvent P S now T ?v e)" by (rule syncEvent_errors_mono)
  have last: "syncErrors (syncEvent P S now T ?v e) = syncErrors v" using snoc.prems by simp
  have e1: "syncErrors ?v = syncErrors v" using m1 m2 last by simp
  have e2: "syncErrors (syncEvent P S now T ?v e) = syncErrors ?v" using m1 m2 last by simp
  show ?case using snoc.IH [OF e1] syncEvent_key_order [OF e2] by simp
qed

lemma assoc_list_eqI:
  "map fst xs = map fst ys \<Longrightarrow> distinct (map fst xs) \<Longrightarrow> map_of xs = map_of ys \<Longrightarrow> xs = ys"
proof (induction xs arbitrary: ys)
  case Nil
  then show ?case by simp
next
  case (Cons p xs)
  then obtain q ys' where ys: "ys = q # ys'" by (cases ys) auto
  obtain k v where p: "p = (k, v)" by (cases p)
  obtain k' v' where q: "q = (k', v')" by (cases q)
  have k: "k' = k" using Cons.prems(1) ys p q by simp
  have pt: "map_of (p # xs) a = map_of ys a" for a
    using Cons.prems(3) by (rule fun_cong)
  have v: "v' = v" using pt [of k] ys p q k by simp
  have keys: "map fst xs = map fst ys'" using Cons.prems(1) ys by simp
  have dist: "distinct (map fst xs)" and fresh: "k \<notin> set (map fst xs)"
    using Cons.prems(2) p by simp_all
  have "map_of xs = map_of ys'"
  proof
    fix a
    show "map_of xs a = map_of ys' a"
    proof (cases "a = k")
      case True
      have "map_of xs k = None" using fresh by (simp add: map_of_eq_None_iff)
      moreover have "map_of ys' k = None" using fresh keys by (simp add: map_of_eq_None_iff)
      ultimately show ?thesis using True by simp
    next
      case False
      show ?thesis using pt [of a] False ys p q k by simp
    qed
  qed
  then have "xs = ys'" using Cons.IH keys dist by blast
  then show ?case using ys p q k v by simp
qed

lemma getSyncTrackingData_append:
  "distinct (map fst (acc @ rows)) \<Longrightarrow> [] \<notin> fst ` set rows \<Longrightarrow>
     foldl (\<lambda>trackingMap (hash, entry).
              if hash \<noteq> [] then map_set hash entry trackingMap else trackingMap) acc rows
       = acc @ rows"
proof (induction rows arbitrary: acc)
  case Nil
  show ?case by simp
next
  case (Cons r rows)
  obtain h x where r: "r = (h, x)" by (cases r)
  have h: "h \<noteq> []" using Cons.prems(2) r by auto
  have "h \<notin> fst ` set acc" using Cons.prems(1) r by auto
  then have step: "map_set h x acc = acc @ [(h, x)]" by (rule map_set_fresh)
  have "distinct (map fst ((acc @ [(h, x)]) @ rows))" using Cons.prems(1) r by simp
  moreover have "[] \<notin> fst ` set rows" using Cons.prems(2) by auto
  ultimately show ?case using Cons.IH [of "acc @ [(h, x)]"] r h step by simp
qed

lemma getSyncTrackingData_written:
  "distinct (map fst rows) \<Longrightarrow> [] \<notin> fst ` set rows \<Longrightarrow> getSyncTrackingData (Some rows) = rows"
  using getSyncTrackingData_append [of "[]" rows] by (simp add: getSyncTrackingData_def)

lemma computeEventHash_nonempty:
  "computeDigestMD5 P (hashInput P e) \<noteq> [] \<Longrightarrow> computeEventHash P e \<noteq> []"
proof -
  assume "computeDigestMD5 P (hashInput P e) \<noteq> []"
  then have "length (computeEventHash P e) \<noteq> 0"
    by (simp add: computeEventHash_def length_concat_byteHex)
  then show ?thesis by auto
qed

section \<open>The calls of a run\<close>

lemma createCalendarEvent_calls:
  "snd (snd (createCalendarEvent S c e)) = [createCall e]"
  by (simp add: createCalendarEvent_def createCall_def Let_def split: prod.splits option.splits)

lemma syncEvent_calls:
  "apiCalls (world (syncEvent P S now T v e)) =
     apiCalls (world v) @ (if map_of T (computeEventHash P e) = None then [createCall e] else [])"
proof (cases rule: syncEvent_cases [where T = T and P = P and e = e and S = S and v = v])
  case (hit x)
  then show ?thesis by (simp add: syncEvent_hit)
next
  case (created newId cal' calls)
  have "calls = [createCall e]"
    using createCalendarEvent_calls [of S "calendar (world v)" e] created(2) by simp
  then show ?thesis using created by (simp add: syncEvent_created)
next
  case (failed msg cal' calls)
  have "calls = [createCall e]"
    using createCalendarEvent_calls [of S "calendar (world v)" e] failed(2) by simp
  then show ?thesis using failed by (simp add: syncEvent_failed)
qed

lemma foldl_syncEvent_calls:
  "apiCalls (world (foldl (syncEvent P S now T) v es)) =
     apiCalls (world v) @ map createCall (filter (\<lambda>e. map_of T (computeEventHash P e) = None) es)"
  by (induction es rule: rev_induct) (simp_all add: syncEvent_calls)

lemma deleteCalendarEvent_calls:
  "\<exists>rest. fst (snd (deleteCalendarEvent S c g)) = GetEventById g # rest"
  by (simp add: deleteCalendarEvent_def split: prod.splits sum.splits bool.splits option.splits)

lemma deleteStale_calls:
  "\<exists>new. apiCalls (snd (deleteStale S seen (d, w) (h, x))) = apiCalls w @ new \<and>
      (h \<notin> set seen \<longrightarrow> GetEventById (gcalEventId x) \<in> set new)"
proof (cases "h \<in> set seen")
  case True
  then show ?thesis by (simp add: deleteStale_seen)
next
  case False
  obtain cal' calls logged where
    d: "deleteCalendarEvent S (calendar w) (gcalEventId x) = (cal', calls, logged)"
    by (cases "deleteCalendarEvent S (calendar w) (gcalEventId x)") auto
  obtain rest where "calls = GetEventById (gcalEventId x) # rest"
    using deleteCalendarEvent_calls [of S "calendar w" "gcalEventId x"] d by auto
  then show ?thesis using False d by (simp add: deleteStale_def)
qed

lemma foldl_deleteStale_calls:
  "\<exists>new. apiCalls (snd (foldl (deleteStale S seen) (d, w) T)) = apiCalls w @ new \<and>
      (\<forall>kv \<in> set T. fst kv \<notin> set seen \<longrightarrow> GetEventById (gcalEventId (snd kv)) \<in> set new)"
proof (induction T rule: rev_induct)
  case Nil
  show ?case by simp
next
  case (snoc kv T)
  obtain new where n: "apiCalls (snd (foldl (deleteStale S seen) (d, w) T)) = apiCalls w @ new"
    "\<forall>kv \<in> set T. fst kv \<notin> set seen \<longrightarrow> GetEventById (gcalEventId (snd kv)) \<in> set new"
    using snoc.IH by blast
  obtain d' w' where s: "foldl (deleteStale S seen) (d, w) T = (d', w')"
    by (cases "foldl (deleteStale S seen) (d, w) T") auto
  obtain new' where n': "apiCalls (snd (deleteStale S seen (d', w') (fst kv, snd kv))) = apiCalls w' @ new'"
    "fst kv \<notin> set seen \<longrightarrow> GetEventById (gcalEventId (snd kv)) \<in> set new'"
    using deleteStale_calls [of S seen d' w' "fst kv" "snd kv"] by blast
  have "apiCalls (snd (foldl (deleteStale S seen) (d, w) (T @ [kv]))) = apiCalls w @ (new @ new')"
    using n(1) n'(1) s by simp
  moreover have "\<forall>kv' \<in> set (T @ [kv]). fst kv' \<notin> set seen
      \<longrightarrow> GetEventById (gcalEventId (snd kv')) \<in> set (new @ new')"
    using n(2) n'(2) by auto
  ultimately show ?case by blast
qed

lemma length_filter_mono:
  "(\<And>x. x \<in> set xs \<Longrightarrow> P x \<Longrightarrow> Q x) \<Longrightarrow> length (filter P xs) \<le> length (filter Q xs)"
  by (induction xs) auto

lemma foldl_syncEvent_untracked_errors:
  "length (filter (\<lambda>e. computeEventHash P e
       \<notin> fst ` set (newTrackingMap (foldl (syncEvent P S now T) v es))) es)
     + syncErrors v \<le> syncErrors (foldl (syncEvent P S now T) v es)"
proof (induction es rule: rev_induct)
  case Nil
  show ?case by simp
next
  case (snoc a es)
  let ?v = "foldl (syncEvent P S now T) v es"
  let ?K = "fst ` set (newTrackingMap ?v)"
  let ?K' = "fst ` set (newTrackingMap (syncEvent P S now T ?v a))"
  have mono: "?K \<subseteq> ?K'" by (rule syncEvent_keys_mono)
  have old: "length (filter (\<lambda>e. computeEventHash P e \<notin> ?K') es)
      \<le> length (filter (\<lambda>e. computeEventHash P e \<notin> ?K) es)"
    by (rule length_filter_mono) (use mono in auto)
  have last: "(if computeEventHash P a \<notin> ?K' then 1 else 0) + syncErrors ?v
      \<le> syncErrors (syncEvent P S now T ?v a)"
  proof (cases "syncErrors (syncEvent P S now T ?v a) = syncErrors ?v")
    case True
    then show ?thesis using syncEvent_no_error_key [of P S now T ?v a] by simp
  next
    case False
    then have "syncErrors ?v < syncErrors (syncEvent P S now T ?v a)"
      using syncEvent_errors_mono [of ?v P S now T a] by linarith
    then show ?thesis by simp
  qed
  have "length (filter (\<lambda>e. computeEventHash P e \<notin> ?K') (es @ [a]))
      = length (filter (\<lambda>e. computeEventHash P e \<notin> ?K') es)
        + (if computeEventHash P a \<notin> ?K' then 1 else 0)"
    by simp
  then have "length (filter (\<lambda>e. computeEventHash P e \<notin> ?K') (es @ [a])) + syncErrors v
      \<le> syncErrors (syncEvent P S now T ?v a)"
    using old last snoc.IH by linarith
  then show ?case by simp
qed

lemma getSyncTrackingData_keys:
  "fst ` set (getSyncTrackingData (Some rows)) \<subseteq> fst ` set rows"
proof -
  have "fst ` set (foldl (\<lambda>trackingMap (hash, entry).
              if hash \<noteq> [] then map_set hash entry trackingMap else trackingMap) acc rows)
      \<subseteq> fst ` set acc \<union> fst ` set rows" for acc
  proof (induction rows rule: rev_induct)
    case Nil
    show ?case by simp
  next
    case (snoc kv rows)
    then show ?case by (cases kv) (auto simp: keys_map_set)
  qed
  from this [of "[]"] show ?thesis by (simp add: getSyncTrackingData_def)
qed


lemma reconcile_calls:
  "\<exists>dcalls. apiCalls (snd (reconcile P S now allEvents w0)) =
       apiCalls w0 @ map createCall
         (filter (\<lambda>e. map_of (getSyncTrackingData (syncSheet w0)) (computeEventHash P e) = None)
            (filter (\<lambda>e. surSiteCCFHK e = True) allEvents)) @ dcalls \<and>
     (\<forall>h x. map_of (getSyncTrackingData (syncSheet w0)) h = Some x \<and>
          h \<notin> computeEventHash P ` set (filter (\<lambda>e. surSiteCCFHK e = True) allEvents)
          \<longrightarrow> GetEventById (gcalEventId x) \<in> set dcalls)"
proof -
  define es where "es = filter (\<lambda>e. surSiteCCFHK e = True) allEvents"
  define T where "T = getSyncTrackingData (syncSheet w0)"
  define v0 :: "'a sync_vars" where
    "v0 = \<lparr>seenHashes = [], newTrackingMap = [], created = 0, unchanged = 0,
           syncErrors = 0, world = w0\<rparr>"
  define v where "v = foldl (syncEvent P S now T) v0 es"
  have seen: "set (seenHashes v) = computeEventHash P ` set es"
    using foldl_syncEvent_seen [of P S now T v0 es] by (simp add: v_def v0_def)
  have c1: "apiCalls (world v) =
      apiCalls w0 @ map createCall (filter (\<lambda>e. map_of T (computeEventHash P e) = None) es)"
    using foldl_syncEvent_calls [of P S now T v0 es] by (simp add: v_def v0_def)
  obtain dcalls where d:
    "apiCalls (snd (foldl (deleteStale S (seenHashes v)) (0, world v) T)) = apiCalls (world v) @ dcalls"
    "\<forall>kv \<in> set T. fst kv \<notin> set (seenHashes v) \<longrightarrow> GetEventById (gcalEventId (snd kv)) \<in> set dcalls"
    using foldl_deleteStale_calls [of S "seenHashes v" 0 "world v" T] by blast
  have r: "apiCalls (snd (reconcile P S now allEvents w0))
      = apiCalls (snd (foldl (deleteStale S (seenHashes v)) (0, world v) T))"
    by (simp add: reconcile_eq Let_def v_def v0_def T_def es_def)
  have stale: "GetEventById (gcalEventId x) \<in> set dcalls"
    if "map_of T h = Some x \<and> h \<notin> computeEventHash P ` set es" for h x
  proof -
    have "(h, x) \<in> set T" using that by (simp add: map_of_SomeD)
    then show ?thesis using d(2) that seen by fastforce
  qed
  have "apiCalls (snd (reconcile P S now allEvents w0)) =
       apiCalls w0 @ map createCall (filter (\<lambda>e. map_of T (computeEventHash P e) = None) es) @ dcalls"
    unfolding r d(1) c1 by simp
  then show ?thesis using stale unfolding es_def T_def by blast
qed

section \<open>Concrete runs\<close>

lemma hash_event1: "computeEventHash testPlatform event1 = ''317c747265636e6f437c657373654d7c''"
proof -
  have "hashInput testPlatform event1 = ''Chorale|+1741968000000Z||Messe|Concert|1''"
    by (simp add: hashInput_def testPlatform_def event1_def)
  then show ?thesis
    unfolding computeEventHash_def
    by (simp add: testPlatform_def byteHex_def toString16_def hexDigit_def Let_def)
qed

lemma hash_event2: "computeEventHash testPlatform event2 = ''317c6e6f696e7565527c7c5a30303030''"
proof -
  have "hashInput testPlatform event2 = ''Jeunes|+1742054400000Z|+1742061600000Z||Reunion|1''"
    by (simp add: hashInput_def testPlatform_def event2_def)
  then show ?thesis
    unfolding computeEventHash_def
    by (simp add: testPlatform_def byteHex_def toString16_def hexDigit_def Let_def)
qed

lemma create_event1:
  "createCalendarEvent testCalendar \<lparr>failures = 0, nextId = n, ids = xs\<rparr> event1 =
     (Inr (''ev'' @ decimal n), \<lparr>failures = 0, nextId = n + 1, ids = xs @ [''ev'' @ decimal n]\<rparr>,
      [CreateAllDayEvent ''Messe | Concert'' 1741968000000 None
         (''[[[Chorale]]]'' @ [CHR 0x0A, CHR 0x0A] @ ''Source: CCFHK Events'')])"
  by (simp add: createCalendarEvent_def testCalendar_def event1_def eventTitleOf_def Let_def
      del: decimal.simps)

lemma create_event1_fails:
  "createCalendarEvent testCalendar \<lparr>failures = Suc k, nextId = n, ids = xs\<rparr> event1 =
     (Inl ''Service error'', \<lparr>failures = k, nextId = n, ids = xs\<rparr>,
      [CreateAllDayEvent ''Messe | Concert'' 1741968000000 None
         (''[[[Chorale]]]'' @ [CHR 0x0A, CHR 0x0A] @ ''Source: CCFHK Events'')])"
  by (simp add: createCalendarEvent_def testCalendar_def event1_def eventTitleOf_def Let_def
      del: decimal.simps)

lemma create_event2:
  "createCalendarEvent testCalendar \<lparr>failures = 0, nextId = n, ids = xs\<rparr> event2 =
     (Inr (''ev'' @ decimal n), \<lparr>failures = 0, nextId = n + 1, ids = xs @ [''ev'' @ decimal n]\<rparr>,
      [CreateEvent ''Reunion'' 1742054400000 1742061600000
         (''[[[Jeunes]]]'' @ [CHR 0x0A, CHR 0x0A] @ ''Source: CCFHK Events'')])"
  by (simp add: createCalendarEvent_def testCalendar_def event2_def eventTitleOf_def Let_def
      del: decimal.simps)

lemma digest_testPlatform: "computeDigestMD5 testPlatform s \<noteq> []"
proof -
  have "length (computeDigestMD5 testPlatform s) = 16" by (simp add: testPlatform_def)
  then show ?thesis by auto
qed

lemma tracking_worldTracked:
  "getSyncTrackingData (syncSheet (worldTracked k)) =
     [(computeEventHash testPlatform event1, entryA), (''stale'', entryB)]"
proof -
  have "distinct (map fst [(computeEventHash testPlatform event1, entryA), (''stale'', entryB)])"
    by (simp add: hash_event1)
  moreover have "[] \<notin> fst ` set [(computeEventHash testPlatform event1, entryA), (''stale'', entryB)]"
    by (simp add: hash_event1)
  ultimately show ?thesis
    by (simp add: worldTracked_def getSyncTrackingData_written)
qed

lemma hashes_differ:
  "computeEventHash testPlatform event2 \<noteq> computeEventHash testPlatform event1"
  "computeEventHash testPlatform event1 \<noteq> ''stale''"
  "computeEventHash testPlatform event2 \<noteq> ''stale''"
  by (simp_all add: hash_event1 hash_event2)

lemma onsite_events:
  "filter (\<lambda>e. surSiteCCFHK e = True) [event1, event2] = [event1, event2]"
  "filter (\<lambda>e. surSiteCCFHK e = True) [event1] = [event1]"
  by (simp_all add: event1_def event2_def)

lemma event_fields:
  "department event1 = ''Chorale''" "department event2 = ''Jeunes''"
  "formatDateGMT testPlatform (date event1) = ''20161''"
  "formatDateGMT testPlatform (date event2) = ''20162''"
  "rowIndex event1 = 2" "eventTitleOf event1 = ''Messe | Concert''"
  by (simp_all add: event1_def event2_def testPlatform_def eventTitleOf_def)

text \<open>The loop over \<open>event1\<close> (tracked) and \<open>event2\<close> (new) on \<open>worldTracked k\<close>.\<close>

lemma loop_tracked_hit:
  "syncEvent testPlatform testCalendar 7
     [(computeEventHash testPlatform event1, entryA), (''stale'', entryB)]
     \<lparr>seenHashes = [], newTrackingMap = [], created = 0, unchanged = 0, syncErrors = 0,
      world = worldTracked k\<rparr> event1 =
   \<lparr>seenHashes = [computeEventHash testPlatform event1],
    newTrackingMap = [(computeEventHash testPlatform event1, entryA)],
    created = 0, unchanged = 1, syncErrors = 0, world = worldTracked k\<rparr>"
proof -
  have "map_of [(computeEventHash testPlatform event1, entryA), (''stale'', entryB)]
          (computeEventHash testPlatform event1) = Some entryA" by simp
  then show ?thesis by (simp add: syncEvent_hit)
qed

lemma loop_tracked_new:
  "syncEvent testPlatform testCalendar 7
     [(computeEventHash testPlatform event1, entryA), (''stale'', entryB)]
     \<lparr>seenHashes = [computeEventHash testPlatform event1],
      newTrackingMap = [(computeEventHash testPlatform event1, entryA)],
      created = 0, unchanged = 1, syncErrors = 0, world = worldTracked 0\<rparr> event2 =
   \<lparr>seenHashes = [computeEventHash testPlatform event2, computeEventHash testPlatform event1],
    newTrackingMap = [(computeEventHash testPlatform event1, entryA),
      (computeEventHash testPlatform event2,
       \<lparr>gcalEventId = ''ev2'', entryDepartment = ''Jeunes'', eventDate = ''20162'', lastSynced = 7\<rparr>)],
    created = 1, unchanged = 1, syncErrors = 0,
    world = \<lparr>calendar = \<lparr>failures = 0, nextId = 3, ids = [''ev0'', ''ev1'', ''ev2'']\<rparr>,
       apiCalls = [CreateEvent ''Reunion'' 1742054400000 1742061600000
         (''[[[Jeunes]]]'' @ [CHR 0x0A, CHR 0x0A] @ ''Source: CCFHK Events'')],
       errorSheet = None,
       syncSheet = Some [(computeEventHash testPlatform event1, entryA), (''stale'', entryB)],
       logger = []\<rparr>\<rparr>"
proof -
  have m: "map_of [(computeEventHash testPlatform event1, entryA), (''stale'', entryB)]
          (computeEventHash testPlatform event2) = None"
    using hashes_differ by simp
  have c: "createCalendarEvent testCalendar
      (calendar (world \<lparr>seenHashes = [computeEventHash testPlatform event1],
         newTrackingMap = [(computeEventHash testPlatform event1, entryA)],
         created = 0, unchanged = 1, syncErrors = 0, world = worldTracked 0\<rparr>)) event2 =
     (Inr ''ev2'', \<lparr>failures = 0, nextId = 3, ids = [''ev0'', ''ev1'', ''ev2'']\<rparr>,
      [CreateEvent ''Reunion'' 1742054400000 1742061600000
         (''[[[Jeunes]]]'' @ [CHR 0x0A, CHR 0x0A] @ ''Source: CCFHK Events'')])"
    by (simp add: worldTracked_def create_event2)
  show ?thesis
    unfolding syncEvent_created [OF m c]
    using hashes_differ by (simp add: event_fields worldTracked_def)
qed

lemma loop_tracked:
  "foldl (syncEvent testPlatform testCalendar 7
       [(computeEventHash testPlatform event1, entryA), (''stale'', entryB)])
     \<lparr>seenHashes = [], newTrackingMap = [], created = 0, unchanged = 0, syncErrors = 0,
      world = worldTracked 0\<rparr> [event1, event2] =
   \<lparr>seenHashes = [computeEventHash testPlatform event2, computeEventHash testPlatform event1],
    newTrackingMap = [(computeEventHash testPlatform event1, entryA),
      (computeEventHash testPlatform event2,
       \<lparr>gcalEventId = ''ev2'', entryDepartment = ''Jeunes'', eventDate = ''20162'', lastSynced = 7\<rparr>)],
    created = 1, unchanged = 1, syncErrors = 0,
    world = \<lparr>calendar = \<lparr>failures = 0, nextId = 3, ids = [''ev0'', ''ev1'', ''ev2'']\<rparr>,
       apiCalls = [CreateEvent ''Reunion'' 1742054400000 1742061600000
         (''[[[Jeunes]]]'' @ [CHR 0x0A, CHR 0x0A] @ ''Source: CCFHK Events'')],
       errorSheet = None,
       syncSheet = Some [(computeEventHash testPlatform event1, entryA), (''stale'', entryB)],
       logger = []\<rparr>\<rparr>"
  by (simp only: foldl.simps loop_tracked_hit loop_tracked_new)

lemma run_tracked_errors:
  "resErrors (fst (reconcile testPlatform testCalendar 7 [event1, event2] (worldTracked 0))) = 0"
  unfolding reconcile_eq Let_def tracking_worldTracked onsite_events loop_tracked
  by simp

text \<open>The stale entry of \<open>worldTracked 1\<close> when the calendar throws at the lookup.\<close>

lemma run_stale_delete_fails:
  "reconcile testPlatform testCalendar 7 [event1] (worldTracked 1) =
     (\<lparr>resCreated = 0, resUnchanged = 1, resDeleted = 1, resErrors = 0\<rparr>,
      \<lparr>calendar = \<lparr>failures = 0, nextId = 2, ids = [''ev0'', ''ev1'']\<rparr>,
       apiCalls = [GetEventById ''ev1''], errorSheet = None,
       syncSheet = Some [(computeEventHash testPlatform event1, entryA)],
       logger = [''Error deleting event: Service error'']\<rparr>)"
proof -
  have loop: "foldl (syncEvent testPlatform testCalendar 7
       [(computeEventHash testPlatform event1, entryA), (''stale'', entryB)])
     \<lparr>seenHashes = [], newTrackingMap = [], created = 0, unchanged = 0, syncErrors = 0,
      world = worldTracked 1\<rparr> [event1] =
     \<lparr>seenHashes = [computeEventHash testPlatform event1],
      newTrackingMap = [(computeEventHash testPlatform event1, entryA)],
      created = 0, unchanged = 1, syncErrors = 0, world = worldTracked 1\<rparr>"
    by (simp only: foldl.simps loop_tracked_hit)
  show ?thesis
    unfolding reconcile_eq Let_def tracking_worldTracked onsite_events loop
    using hashes_differ
    by (simp add: deleteStale_def deleteCalendarEvent_def testCalendar_def worldTracked_def
        entryB_def)
qed



text \<open>A create that fails in one run and succeeds in the next.\<close>

lemma run_create_fails:
  "reconcile testPlatform testCalendar 7 [event1] (worldEmpty 1) =
     (\<lparr>resCreated = 0, resUnchanged = 0, resDeleted = 0, resErrors = 1\<rparr>,
      \<lparr>calendar = \<lparr>failures = 0, nextId = 0, ids = []\<rparr>,
       apiCalls = [CreateAllDayEvent ''Messe | Concert'' 1741968000000 None
                     (''[[[Chorale]]]'' @ [CHR 0x0A, CHR 0x0A] @ ''Source: CCFHK Events'')],
       errorSheet = logError (toLocaleString testPlatform 7) None ''SYNC_GCAL'' ''Chorale'' (VNum 2)
          ([CHR 0xC9] @ ''chec synchronisation Google Calendar'')
          ([CHR 0xC9] @ ''v'' @ [CHR 0xE9] @ ''nement: '' @ [CHR 0x22] @ ''Messe | Concert'' @ [CHR 0x22] @ '', Erreur: Service error''),
       syncSheet = Some [], logger = []\<rparr>)"
proof -
  let ?v0 = "\<lparr>seenHashes = [], newTrackingMap = [], created = 0, unchanged = 0, syncErrors = 0,
      world = worldEmpty 1\<rparr>"
  let ?call = "CreateAllDayEvent ''Messe | Concert'' 1741968000000 None
                     (''[[[Chorale]]]'' @ [CHR 0x0A, CHR 0x0A] @ ''Source: CCFHK Events'')"
  let ?v1 = "\<lparr>seenHashes = [computeEventHash testPlatform event1],
      newTrackingMap = [], created = 0, unchanged = 0, syncErrors = 1,
      world = \<lparr>calendar = \<lparr>failures = 0, nextId = 0, ids = []\<rparr>, apiCalls = [?call],
        errorSheet = logError (toLocaleString testPlatform 7) None ''SYNC_GCAL'' ''Chorale'' (VNum 2)
          ([CHR 0xC9] @ ''chec synchronisation Google Calendar'')
          ([CHR 0xC9] @ ''v'' @ [CHR 0xE9] @ ''nement: '' @ [CHR 0x22] @ ''Messe | Concert'' @ [CHR 0x22] @ '', Erreur: Service error''),
        syncSheet = None, logger = []\<rparr>\<rparr>"
  have m: "map_of [] (computeEventHash testPlatform event1) = None" by simp
  have c1: "createCalendarEvent testCalendar (calendar (world ?v0)) event1 =
      (Inl ''Service error'', \<lparr>failures = 0, nextId = 0, ids = []\<rparr>, [?call])"
    using create_event1_fails [of 0 0 "[]"] by (simp add: worldEmpty_def)
  have s1: "syncEvent testPlatform testCalendar 7 [] ?v0 event1 = ?v1"
    unfolding syncEvent_failed [OF m c1] by (simp add: event_fields worldEmpty_def)
  have loop: "foldl (syncEvent testPlatform testCalendar 7 []) ?v0 [event1] = ?v1"
    by (simp only: foldl.simps s1)
  have T: "getSyncTrackingData (syncSheet (worldEmpty 1)) = []"
    by (simp add: worldEmpty_def getSyncTrackingData_def)
  show ?thesis
    unfolding reconcile_eq Let_def T onsite_events loop by simp
qed

lemma run_create_retried:
  "resCreated (fst (reconcile testPlatform testCalendar 8 [event1]
      (snd (reconcile testPlatform testCalendar 7 [event1] (worldEmpty 1))))) = 1"
proof -
  let ?call = "CreateAllDayEvent ''Messe | Concert'' 1741968000000 None
                     (''[[[Chorale]]]'' @ [CHR 0x0A, CHR 0x0A] @ ''Source: CCFHK Events'')"
  let ?w1 = "\<lparr>calendar = \<lparr>failures = 0, nextId = 0, ids = []\<rparr>,
       apiCalls = [?call],
       errorSheet = logError (toLocaleString testPlatform 7) None ''SYNC_GCAL'' ''Chorale'' (VNum 2)
          ([CHR 0xC9] @ ''chec synchronisation Google Calendar'')
          ([CHR 0xC9] @ ''v'' @ [CHR 0xE9] @ ''nement: '' @ [CHR 0x22] @ ''Messe | Concert'' @ [CHR 0x22] @ '', Erreur: Service error''),
       syncSheet = Some [], logger = []\<rparr>"
  let ?v0 = "\<lparr>seenHashes = [], newTrackingMap = [], created = 0, unchanged = 0, syncErrors = 0,
      world = ?w1\<rparr>"
  have m: "map_of [] (computeEventHash testPlatform event1) = None" by simp
  have c1: "createCalendarEvent testCalendar (calendar (world ?v0)) event1 =
      (Inr ''ev0'', \<lparr>failures = 0, nextId = 1, ids = [''ev0'']\<rparr>, [?call])"
    by (simp add: create_event1)
  have s1: "created (syncEvent testPlatform testCalendar 8 [] ?v0 event1) = 1"
    unfolding syncEvent_created [OF m c1] by simp
  have T: "getSyncTrackingData (syncSheet ?w1) = []"
    by (simp add: getSyncTrackingData_def)
  have "resCreated (fst (reconcile testPlatform testCalendar 8 [event1] ?w1)) = 1"
    unfolding reconcile_eq Let_def T onsite_events using s1 by simp
  then show ?thesis by (simp only: run_create_fails snd_conv)
qed

section \<open>Claims on the reconciliation\<close>

text \<open>
  Claim C1, amended. A failed create writes no tracking entry: the loop body leaves
  \<open>newTrackingMap\<close> as it was, counts one error and logs the failure on the error sheet
  as a \<open>SYNC_GCAL\<close> error. No failure of a create or of a delete ends the run: the
  tracking sheet is rewritten, the create of every event to sync whose hash was not
  tracked is attempted, and so is the delete of every tracked entry whose hash is not
  current; the events counted as created or unchanged are at most the events to sync,
  and those that are left without an entry are counted among the errors. An event to
  sync that is left without an entry is created again by the next run. A tracked entry
  whose hash is not current is absent from the rewritten sheet, whatever the calendar
  answered to its delete.
\<close>

theorem reconcile_survives_failures:
  "(map_of T (computeEventHash P e) = None \<and>
      createCalendarEvent S (calendar (world v)) e = (Inl msg, cal', cs)
      \<longrightarrow> newTrackingMap (syncEvent P S now T v e) = newTrackingMap v \<and>
          syncErrors (syncEvent P S now T v e) = syncErrors v + 1 \<and>
          created (syncEvent P S now T v e) = created v \<and>
          unchanged (syncEvent P S now T v e) = unchanged v \<and>
          errorSheet (world (syncEvent P S now T v e)) =
            logError (toLocaleString P now) (errorSheet (world v)) ''SYNC_GCAL''
              (department e) (VNum (of_nat (rowIndex e)))
              ([CHR 0xC9] @ ''chec synchronisation Google Calendar'')
              ([CHR 0xC9] @ ''v'' @ [CHR 0xE9] @ ''nement: '' @ [CHR 0x22] @ eventTitleOf e
                 @ [CHR 0x22] @ '', Erreur: '' @ msg)) \<and>
   (\<exists>rows calls.
      syncSheet (snd (reconcile P S now allEvents w0)) = Some rows \<and>
      apiCalls (snd (reconcile P S now allEvents w0)) = apiCalls w0 @ calls \<and>
      (\<forall>e \<in> set (filter (\<lambda>e. surSiteCCFHK e = True) allEvents).
         map_of (getSyncTrackingData (syncSheet w0)) (computeEventHash P e) = None
         \<longrightarrow> createCall e \<in> set calls) \<and>
      (\<forall>h x. map_of (getSyncTrackingData (syncSheet w0)) h = Some x \<and>
          h \<notin> computeEventHash P ` set (filter (\<lambda>e. surSiteCCFHK e = True) allEvents)
          \<longrightarrow> GetEventById (gcalEventId x) \<in> set calls \<and> map_of rows h = None) \<and>
      resCreated (fst (reconcile P S now allEvents w0))
        + resUnchanged (fst (reconcile P S now allEvents w0))
        \<le> length (filter (\<lambda>e. surSiteCCFHK e = True) allEvents) \<and>
      length (filter (\<lambda>e. surSiteCCFHK e = True) allEvents)
        \<le> resCreated (fst (reconcile P S now allEvents w0))
          + resUnchanged (fst (reconcile P S now allEvents w0))
          + resErrors (fst (reconcile P S now allEvents w0)) \<and>
      length (filter (\<lambda>e. map_of rows (computeEventHash P e) = None)
                (filter (\<lambda>e. surSiteCCFHK e = True) allEvents))
        \<le> resErrors (fst (reconcile P S now allEvents w0)) \<and>
      (\<forall>e \<in> set (filter (\<lambda>e. surSiteCCFHK e = True) allEvents).
         map_of rows (computeEventHash P e) = None
         \<longrightarrow> (\<exists>calls'. apiCalls (snd (reconcile P S' now' allEvents
                             (snd (reconcile P S now allEvents w0))))
                   = apiCalls (snd (reconcile P S now allEvents w0)) @ calls' \<and>
                 createCall e \<in> set calls')))"
proof -
  define es where "es = filter (\<lambda>e. surSiteCCFHK e = True) allEvents"
  define T0 where "T0 = getSyncTrackingData (syncSheet w0)"
  define v0 :: "'a sync_vars" where
    "v0 = \<lparr>seenHashes = [], newTrackingMap = [], created = 0, unchanged = 0,
           syncErrors = 0, world = w0\<rparr>"
  define v1 where "v1 = foldl (syncEvent P S now T0) v0 es"
  define rows where "rows = newTrackingMap v1"
  define r where "r = reconcile P S now allEvents w0"
  have step: "newTrackingMap (syncEvent P S now T v e) = newTrackingMap v \<and>
          syncErrors (syncEvent P S now T v e) = syncErrors v + 1 \<and>
          created (syncEvent P S now T v e) = created v \<and>
          unchanged (syncEvent P S now T v e) = unchanged v \<and>
          errorSheet (world (syncEvent P S now T v e)) =
            logError (toLocaleString P now) (errorSheet (world v)) ''SYNC_GCAL''
              (department e) (VNum (of_nat (rowIndex e)))
              ([CHR 0xC9] @ ''chec synchronisation Google Calendar'')
              ([CHR 0xC9] @ ''v'' @ [CHR 0xE9] @ ''nement: '' @ [CHR 0x22] @ eventTitleOf e
                 @ [CHR 0x22] @ '', Erreur: '' @ msg)"
    if a: "map_of T (computeEventHash P e) = None \<and>
      createCalendarEvent S (calendar (world v)) e = (Inl msg, cal', cs)"
    using a by (simp add: syncEvent_failed)
  have sheet: "syncSheet (snd r) = Some rows"
    by (simp add: r_def reconcile_eq Let_def rows_def v1_def v0_def T0_def es_def)
  have res: "resCreated (fst r) = created v1" "resUnchanged (fst r) = unchanged v1"
    "resErrors (fst r) = syncErrors v1"
    by (simp_all add: r_def reconcile_eq Let_def v1_def v0_def T0_def es_def)
  obtain dcalls where dc:
    "apiCalls (snd r) = apiCalls w0 @ map createCall
         (filter (\<lambda>e. map_of T0 (computeEventHash P e) = None) es) @ dcalls"
    "\<forall>h x. map_of T0 h = Some x \<and> h \<notin> computeEventHash P ` set es
          \<longrightarrow> GetEventById (gcalEventId x) \<in> set dcalls"
    using reconcile_calls [of P S now allEvents w0] unfolding r_def es_def T0_def by blast
  define calls where
    "calls = map createCall (filter (\<lambda>e. map_of T0 (computeEventHash P e) = None) es) @ dcalls"
  have calls: "apiCalls (snd r) = apiCalls w0 @ calls" unfolding calls_def dc(1) by simp
  have attempted: "\<forall>e \<in> set es. map_of T0 (computeEventHash P e) = None \<longrightarrow> createCall e \<in> set calls"
    unfolding calls_def by simp
  have upper: "fst ` set rows \<subseteq> computeEventHash P ` set es"
    using foldl_syncEvent_keys_upper [of P S now T0 v0 es] by (simp add: rows_def v1_def v0_def)
  have stale: "\<forall>h x. map_of T0 h = Some x \<and> h \<notin> computeEventHash P ` set es
          \<longrightarrow> GetEventById (gcalEventId x) \<in> set calls \<and> map_of rows h = None"
  proof (intro allI impI)
    fix h x
    assume a: "map_of T0 h = Some x \<and> h \<notin> computeEventHash P ` set es"
    then have "GetEventById (gcalEventId x) \<in> set dcalls" using dc(2) by blast
    moreover have "map_of rows h = None" using a upper by (auto simp: map_of_eq_None_iff)
    ultimately show "GetEventById (gcalEventId x) \<in> set calls \<and> map_of rows h = None"
      unfolding calls_def by simp
  qed
  have counts: "created v1 + unchanged v1 + syncErrors v1 = length es"
    using foldl_syncEvent_counts [of P S now T0 v0 es] by (simp add: v1_def v0_def)
  have lo: "resCreated (fst r) + resUnchanged (fst r) \<le> length es"
    and hi: "length es \<le> resCreated (fst r) + resUnchanged (fst r) + resErrors (fst r)"
    using counts unfolding res by simp_all
  have "length (filter (\<lambda>e. computeEventHash P e \<notin> fst ` set rows) es) + syncErrors v0
      \<le> syncErrors v1"
    unfolding rows_def v1_def by (rule foldl_syncEvent_untracked_errors)
  then have untracked: "length (filter (\<lambda>e. map_of rows (computeEventHash P e) = None) es)
      \<le> resErrors (fst r)"
    unfolding res by (simp add: v0_def map_of_eq_None_keys)
  have retry: "\<forall>e \<in> set es. map_of rows (computeEventHash P e) = None
      \<longrightarrow> (\<exists>calls'. apiCalls (snd (reconcile P S' now' allEvents (snd r)))
               = apiCalls (snd r) @ calls' \<and> createCall e \<in> set calls')"
  proof (intro ballI impI)
    fix e
    assume e: "e \<in> set es" and n: "map_of rows (computeEventHash P e) = None"
    let ?T1 = "getSyncTrackingData (syncSheet (snd r))"
    have "fst ` set ?T1 \<subseteq> fst ` set rows" unfolding sheet by (rule getSyncTrackingData_keys)
    then have n1: "map_of ?T1 (computeEventHash P e) = None"
      using n by (auto simp: map_of_eq_None_keys)
    obtain dcalls' where
      "apiCalls (snd (reconcile P S' now' allEvents (snd r))) = apiCalls (snd r) @ map createCall
         (filter (\<lambda>e. map_of ?T1 (computeEventHash P e) = None) es) @ dcalls'"
      using reconcile_calls [of P S' now' allEvents "snd r"] unfolding es_def by blast
    moreover have "createCall e \<in> set (map createCall
         (filter (\<lambda>e. map_of ?T1 (computeEventHash P e) = None) es) @ dcalls')"
      using e n1 by simp
    ultimately show "\<exists>calls'. apiCalls (snd (reconcile P S' now' allEvents (snd r)))
               = apiCalls (snd r) @ calls' \<and> createCall e \<in> set calls'"
      by blast
  qed
  have run: "\<exists>rows calls.
      syncSheet (snd r) = Some rows \<and>
      apiCalls (snd r) = apiCalls w0 @ calls \<and>
      (\<forall>e \<in> set es. map_of T0 (computeEventHash P e) = None \<longrightarrow> createCall e \<in> set calls) \<and>
      (\<forall>h x. map_of T0 h = Some x \<and> h \<notin> computeEventHash P ` set es
          \<longrightarrow> GetEventById (gcalEventId x) \<in> set calls \<and> map_of rows h = None) \<and>
      resCreated (fst r) + resUnchanged (fst r) \<le> length es \<and>
      length es \<le> resCreated (fst r) + resUnchanged (fst r) + resErrors (fst r) \<and>
      length (filter (\<lambda>e. map_of rows (computeEventHash P e) = None) es) \<le> resErrors (fst r) \<and>
      (\<forall>e \<in> set es. map_of rows (computeEventHash P e) = None
         \<longrightarrow> (\<exists>calls'. apiCalls (snd (reconcile P S' now' allEvents (snd r)))
                   = apiCalls (snd r) @ calls' \<and> createCall e \<in> set calls'))"
    by (intro exI [of _ rows] exI [of _ calls] conjI sheet calls attempted stale lo hi untracked retry)
  show ?thesis
  proof (rule conjI)
    show "map_of T (computeEventHash P e) = None \<and>
      createCalendarEvent S (calendar (world v)) e = (Inl msg, cal', cs)
      \<longrightarrow> newTrackingMap (syncEvent P S now T v e) = newTrackingMap v \<and>
          syncErrors (syncEvent P S now T v e) = syncErrors v + 1 \<and>
          created (syncEvent P S now T v e) = created v \<and>
          unchanged (syncEvent P S now T v e) = unchanged v \<and>
          errorSheet (world (syncEvent P S now T v e)) =
            logError (toLocaleString P now) (errorSheet (world v)) ''SYNC_GCAL''
              (department e) (VNum (of_nat (rowIndex e)))
              ([CHR 0xC9] @ ''chec synchronisation Google Calendar'')
              ([CHR 0xC9] @ ''v'' @ [CHR 0xE9] @ ''nement: '' @ [CHR 0x22] @ eventTitleOf e
                 @ [CHR 0x22] @ '', Erreur: '' @ msg)"
      using step by (rule impI)
  qed (use run in \<open>simp only: es_def T0_def r_def\<close>)
qed

theorem reconcile_survives_failures_witness:
  "map_of [] (computeEventHash testPlatform event1) = None \<and>
   createCalendarEvent testCalendar
      (calendar (world \<lparr>seenHashes = [], newTrackingMap = [], created = 0, unchanged = 0,
         syncErrors = 0, world = worldEmpty 1\<rparr>)) event1
     = (Inl ''Service error'', \<lparr>failures = 0, nextId = 0, ids = []\<rparr>, [createCall event1]) \<and>
   newTrackingMap (syncEvent testPlatform testCalendar 7 []
      \<lparr>seenHashes = [], newTrackingMap = [], created = 0, unchanged = 0,
       syncErrors = 0, world = worldEmpty 1\<rparr> event1) = [] \<and>
   syncErrors (syncEvent testPlatform testCalendar 7 []
      \<lparr>seenHashes = [], newTrackingMap = [], created = 0, unchanged = 0,
       syncErrors = 0, world = worldEmpty 1\<rparr> event1) = 1 \<and>
   errorSheet (world (syncEvent testPlatform testCalendar 7 []
      \<lparr>seenHashes = [], newTrackingMap = [], created = 0, unchanged = 0,
       syncErrors = 0, world = worldEmpty 1\<rparr> event1)) =
     logError (toLocaleString testPlatform 7) None ''SYNC_GCAL'' ''Chorale'' (VNum 2)
       ([CHR 0xC9] @ ''chec synchronisation Google Calendar'')
       ([CHR 0xC9] @ ''v'' @ [CHR 0xE9] @ ''nement: '' @ [CHR 0x22] @ ''Messe | Concert''
          @ [CHR 0x22] @ '', Erreur: Service error'') \<and>
   event1 \<in> set (filter (\<lambda>e. surSiteCCFHK e = True) [event1]) \<and>
   map_of (getSyncTrackingData (syncSheet (worldEmpty 1))) (computeEventHash testPlatform event1)
     = None \<and>
   (\<exists>rows calls.
      syncSheet (snd (reconcile testPlatform testCalendar 7 [event1] (worldEmpty 1))) = Some rows \<and>
      apiCalls (snd (reconcile testPlatform testCalendar 7 [event1] (worldEmpty 1)))
        = apiCalls (worldEmpty 1) @ calls \<and>
      createCall event1 \<in> set calls \<and>
      map_of rows (computeEventHash testPlatform event1) = None \<and>
      (\<exists>calls'. apiCalls (snd (reconcile testPlatform testCalendar 8 [event1]
                    (snd (reconcile testPlatform testCalendar 7 [event1] (worldEmpty 1)))))
           = apiCalls (snd (reconcile testPlatform testCalendar 7 [event1] (worldEmpty 1))) @ calls' \<and>
         createCall event1 \<in> set calls')) \<and>
   map_of (getSyncTrackingData (syncSheet (worldTracked 1))) ''stale'' = Some entryB \<and>
   ''stale'' \<notin> computeEventHash testPlatform ` set (filter (\<lambda>e. surSiteCCFHK e = True) [event1]) \<and>
   (\<exists>rows calls.
      syncSheet (snd (reconcile testPlatform testCalendar 7 [event1] (worldTracked 1))) = Some rows \<and>
      GetEventById (gcalEventId entryB) \<in> set calls \<and> map_of rows ''stale'' = None)"
proof -
  let ?v = "\<lparr>seenHashes = [], newTrackingMap = [], created = 0, unchanged = 0,
       syncErrors = 0, world = worldEmpty 1\<rparr> :: cal_state sync_vars"
  let ?c = "\<lparr>failures = 0, nextId = 0, ids = []\<rparr>"
  let ?r1 = "reconcile testPlatform testCalendar 7 [event1] (worldEmpty 1)"
  let ?r2 = "reconcile testPlatform testCalendar 7 [event1] (worldTracked 1)"
  let ?es = "filter (\<lambda>e. surSiteCCFHK e = True) [event1]"
  have m: "map_of [] (computeEventHash testPlatform event1) = None" by simp
  have cc: "createCall event1 = CreateAllDayEvent ''Messe | Concert'' 1741968000000 None
         (''[[[Chorale]]]'' @ [CHR 0x0A, CHR 0x0A] @ ''Source: CCFHK Events'')"
    by (simp add: createCall_def event1_def eventTitleOf_def)
  have c: "createCalendarEvent testCalendar (calendar (world ?v)) event1
      = (Inl ''Service error'', ?c, [createCall event1])"
    unfolding cc using create_event1_fails [of 0 0 "[]"] by (simp add: worldEmpty_def)
  have e1: "event1 \<in> set ?es" unfolding onsite_events by simp
  have T1: "map_of (getSyncTrackingData (syncSheet (worldEmpty 1)))
      (computeEventHash testPlatform event1) = None"
    by (simp add: worldEmpty_def getSyncTrackingData_def)
  have T2: "map_of (getSyncTrackingData (syncSheet (worldTracked 1))) ''stale'' = Some entryB"
    using hashes_differ by (simp add: tracking_worldTracked)
  have s: "''stale'' \<notin> computeEventHash testPlatform ` set ?es"
    unfolding onsite_events using hashes_differ by simp
  note inst1 = reconcile_survives_failures [where T = "[]" and P = testPlatform and e = event1
      and S = testCalendar and v = ?v and msg = "''Service error''" and cal' = ?c
      and cs = "[createCall event1]" and now = 7 and allEvents = "[event1]"
      and ?w0.0 = "worldEmpty 1" and S' = testCalendar and now' = 8]
  note inst2 = reconcile_survives_failures [where T = "[]" and P = testPlatform and e = event1
      and S = testCalendar and v = ?v and msg = "''Service error''" and cal' = ?c
      and cs = "[createCall event1]" and now = 7 and allEvents = "[event1]"
      and ?w0.0 = "worldTracked 1" and S' = testCalendar and now' = 8]
  have step: "newTrackingMap (syncEvent testPlatform testCalendar 7 [] ?v event1) = newTrackingMap ?v \<and>
      syncErrors (syncEvent testPlatform testCalendar 7 [] ?v event1) = syncErrors ?v + 1 \<and>
      created (syncEvent testPlatform testCalendar 7 [] ?v event1) = created ?v \<and>
      unchanged (syncEvent testPlatform testCalendar 7 [] ?v event1) = unchanged ?v \<and>
      errorSheet (world (syncEvent testPlatform testCalendar 7 [] ?v event1)) =
        logError (toLocaleString testPlatform 7) (errorSheet (world ?v)) ''SYNC_GCAL''
          (department event1) (VNum (of_nat (rowIndex event1)))
          ([CHR 0xC9] @ ''chec synchronisation Google Calendar'')
          ([CHR 0xC9] @ ''v'' @ [CHR 0xE9] @ ''nement: '' @ [CHR 0x22] @ eventTitleOf event1
             @ [CHR 0x22] @ '', Erreur: '' @ ''Service error'')"
    using inst1 [THEN conjunct1, THEN mp, OF conjI, OF m c] .
  have n1: "newTrackingMap (syncEvent testPlatform testCalendar 7 [] ?v event1) = []"
    using step [THEN conjunct1] by simp
  have n2: "syncErrors (syncEvent testPlatform testCalendar 7 [] ?v event1) = 1"
    using step [THEN conjunct2, THEN conjunct1] by simp
  have n3: "errorSheet (world (syncEvent testPlatform testCalendar 7 [] ?v event1)) =
     logError (toLocaleString testPlatform 7) None ''SYNC_GCAL'' ''Chorale'' (VNum 2)
       ([CHR 0xC9] @ ''chec synchronisation Google Calendar'')
       ([CHR 0xC9] @ ''v'' @ [CHR 0xE9] @ ''nement: '' @ [CHR 0x22] @ ''Messe | Concert''
          @ [CHR 0x22] @ '', Erreur: Service error'')"
    using step [THEN conjunct2, THEN conjunct2, THEN conjunct2, THEN conjunct2]
    by (simp add: event_fields worldEmpty_def)
  from inst1 [THEN conjunct2] obtain rows calls where R1:
    "syncSheet (snd ?r1) = Some rows"
    "apiCalls (snd ?r1) = apiCalls (worldEmpty 1) @ calls"
    "\<forall>e \<in> set ?es. map_of (getSyncTrackingData (syncSheet (worldEmpty 1)))
          (computeEventHash testPlatform e) = None \<longrightarrow> createCall e \<in> set calls"
    "\<forall>e \<in> set ?es. map_of rows (computeEventHash testPlatform e) = None
         \<longrightarrow> (\<exists>calls'. apiCalls (snd (reconcile testPlatform testCalendar 8 [event1] (snd ?r1)))
                   = apiCalls (snd ?r1) @ calls' \<and> createCall e \<in> set calls')"
    by blast
  have rows: "rows = []" using R1(1) unfolding run_create_fails by simp
  have untr: "map_of rows (computeEventHash testPlatform event1) = None" unfolding rows by simp
  have att: "createCall event1 \<in> set calls" using R1(3) [THEN bspec, OF e1, THEN mp, OF T1] .
  have ret: "\<exists>calls'. apiCalls (snd (reconcile testPlatform testCalendar 8 [event1] (snd ?r1)))
                   = apiCalls (snd ?r1) @ calls' \<and> createCall event1 \<in> set calls'"
    using R1(4) [THEN bspec, OF e1, THEN mp, OF untr] .
  have ex1: "\<exists>rows calls.
      syncSheet (snd ?r1) = Some rows \<and>
      apiCalls (snd ?r1) = apiCalls (worldEmpty 1) @ calls \<and>
      createCall event1 \<in> set calls \<and>
      map_of rows (computeEventHash testPlatform event1) = None \<and>
      (\<exists>calls'. apiCalls (snd (reconcile testPlatform testCalendar 8 [event1] (snd ?r1)))
           = apiCalls (snd ?r1) @ calls' \<and> createCall event1 \<in> set calls')"
    by (intro exI [of _ rows] exI [of _ calls] conjI R1(1) R1(2) att untr ret)
  from inst2 [THEN conjunct2] obtain rows2 calls2 where R2:
    "syncSheet (snd ?r2) = Some rows2"
    "\<forall>h x. map_of (getSyncTrackingData (syncSheet (worldTracked 1))) h = Some x \<and>
          h \<notin> computeEventHash testPlatform ` set ?es
          \<longrightarrow> GetEventById (gcalEventId x) \<in> set calls2 \<and> map_of rows2 h = None"
    by blast
  have "GetEventById (gcalEventId entryB) \<in> set calls2 \<and> map_of rows2 ''stale'' = None"
    using R2(2) [THEN spec, THEN spec, THEN mp, OF conjI, OF T2 s] .
  then have ex2: "\<exists>rows calls. syncSheet (snd ?r2) = Some rows \<and>
      GetEventById (gcalEventId entryB) \<in> set calls \<and> map_of rows ''stale'' = None"
    using R2(1) by blast
  show ?thesis by (intro conjI m c n1 n2 n3 e1 T1 ex1 T2 s ex2)
qed

text \<open>
  Claim C1 as stated fails: \<open>worldTracked 1\<close> tracks an entry whose hash is gone from the
  sheets, and the calendar throws at the lookup of its event. The run writes a tracking
  sheet without the entry, while the event is still in the calendar: nothing is left
  from which a later run could retry the delete.
\<close>

theorem reconcile_drops_entry_of_failed_delete:
  "map_of (getSyncTrackingData (syncSheet (worldTracked 1))) ''stale'' = Some entryB \<and>
   fst (getEventById testCalendar (calendar (worldTracked 1)) (gcalEventId entryB))
     = Inl ''Service error'' \<and>
   syncSheet (snd (reconcile testPlatform testCalendar 7 [event1] (worldTracked 1)))
     = Some [(computeEventHash testPlatform event1, entryA)] \<and>
   ids (calendar (snd (reconcile testPlatform testCalendar 7 [event1] (worldTracked 1))))
     = [''ev0'', ''ev1'']"
proof -
  have "map_of (getSyncTrackingData (syncSheet (worldTracked 1))) ''stale'' = Some entryB"
    using hashes_differ by (simp add: tracking_worldTracked)
  moreover have "fst (getEventById testCalendar (calendar (worldTracked 1)) (gcalEventId entryB))
     = Inl ''Service error''"
    by (simp add: testCalendar_def worldTracked_def)
  ultimately show ?thesis unfolding run_stale_delete_fails by simp
qed




text \<open>
  Claim C3, amended. Where every digest has at least one byte (an MD5 digest has 16) and
  the first run reports no failed create, a second run on the same events, whatever the
  calendar and the clock, creates nothing, deletes nothing, fails nowhere, counts every
  event to sync as unchanged, and leaves the calendar, the list of calls made to it, the
  error sheet and the tracking sheet, row for row, as the first run left them.
\<close>

theorem reconcile_idempotent:
  assumes digest: "\<forall>s. computeDigestMD5 P s \<noteq> []"
    and ok: "resErrors (fst (reconcile P S now allEvents w0)) = 0"
  shows "resCreated (fst (reconcile P S' now' allEvents (snd (reconcile P S now allEvents w0)))) = 0 \<and>
     resDeleted (fst (reconcile P S' now' allEvents (snd (reconcile P S now allEvents w0)))) = 0 \<and>
     resErrors (fst (reconcile P S' now' allEvents (snd (reconcile P S now allEvents w0)))) = 0 \<and>
     resUnchanged (fst (reconcile P S' now' allEvents (snd (reconcile P S now allEvents w0))))
       = length (filter (\<lambda>e. surSiteCCFHK e = True) allEvents) \<and>
     snd (reconcile P S' now' allEvents (snd (reconcile P S now allEvents w0)))
       = snd (reconcile P S now allEvents w0)"
proof -
  define es where "es = filter (\<lambda>e. surSiteCCFHK e = True) allEvents"
  define T0 where "T0 = getSyncTrackingData (syncSheet w0)"
  define v0 :: "'a sync_vars" where
    "v0 = \<lparr>seenHashes = [], newTrackingMap = [], created = 0, unchanged = 0,
           syncErrors = 0, world = w0\<rparr>"
  define v1 where "v1 = foldl (syncEvent P S now T0) v0 es"
  define rows where "rows = newTrackingMap v1"
  define w1 where "w1 = snd (reconcile P S now allEvents w0)"
  have sheet1: "syncSheet w1 = Some rows"
    by (simp add: w1_def reconcile_eq Let_def rows_def v1_def v0_def T0_def es_def)
  have errs1: "syncErrors v1 = syncErrors v0"
    using ok by (simp add: reconcile_eq Let_def v1_def v0_def T0_def es_def)
  have dist: "distinct (map fst rows)"
    unfolding rows_def v1_def by (rule foldl_syncEvent_distinct) (simp add: v0_def)
  have upper: "fst ` set rows \<subseteq> computeEventHash P ` set es"
    using foldl_syncEvent_keys_upper [of P S now T0 v0 es] by (simp add: rows_def v1_def v0_def)
  have lower: "computeEventHash P ` set es \<subseteq> fst ` set rows"
    unfolding rows_def v1_def using errs1 [unfolded v1_def] by (rule foldl_syncEvent_no_error_keys)
  have keys: "fst ` set rows = computeEventHash P ` set es" using upper lower by blast
  have ne: "computeEventHash P e \<noteq> []" for e
    using digest by (simp add: computeEventHash_nonempty)
  have nonempty: "[] \<notin> fst ` set rows"
  proof
    assume "[] \<in> fst ` set rows"
    then have "[] \<in> computeEventHash P ` set es" using keys by simp
    then obtain e where "[] = computeEventHash P e" by blast
    then show False using ne [of e] by simp
  qed
  have T1: "getSyncTrackingData (syncSheet w1) = rows"
    using sheet1 dist nonempty by (simp add: getSyncTrackingData_written)
  define u0 :: "'a sync_vars" where
    "u0 = \<lparr>seenHashes = [], newTrackingMap = [], created = 0, unchanged = 0,
           syncErrors = 0, world = w1\<rparr>"
  define v2 where "v2 = foldl (syncEvent P S' now' rows) u0 es"
  have hits: "\<forall>e \<in> set es. map_of rows (computeEventHash P e) \<noteq> None"
    using lower by (auto simp: map_of_eq_None_iff)
  have quiet: "world v2 = w1 \<and> created v2 = 0 \<and> syncErrors v2 = 0 \<and> unchanged v2 = length es"
    using foldl_syncEvent_all_hits [OF hits, of S' now' u0] by (simp add: v2_def u0_def)
  have seen2: "set (seenHashes v2) = computeEventHash P ` set es"
    using foldl_syncEvent_seen [of P S' now' rows u0 es] by (simp add: v2_def u0_def)
  have nostale: "\<forall>kv \<in> set rows. fst kv \<in> set (seenHashes v2)"
    using seen2 keys by auto
  have del2: "foldl (deleteStale S' (seenHashes v2)) (0, world v2) rows = (0, world v2)"
    using nostale by (rule foldl_deleteStale_none)
  have order1: "map fst rows =
     foldl (\<lambda>ks e. if computeEventHash P e \<in> set ks then ks else ks @ [computeEventHash P e]) [] es"
    using foldl_syncEvent_key_order [OF errs1 [unfolded v1_def]] by (simp add: rows_def v1_def v0_def)
  have errs2: "syncErrors (foldl (syncEvent P S' now' rows) u0 es) = syncErrors u0"
    using quiet by (simp add: v2_def u0_def)
  have order2: "map fst (newTrackingMap v2) =
     foldl (\<lambda>ks e. if computeEventHash P e \<in> set ks then ks else ks @ [computeEventHash P e]) [] es"
    using foldl_syncEvent_key_order [OF errs2] by (simp add: v2_def u0_def)
  have dist2: "distinct (map fst (newTrackingMap v2))"
    unfolding v2_def by (rule foldl_syncEvent_distinct) (simp add: u0_def)
  have same_map: "map_of (newTrackingMap v2) = map_of rows"
  proof
    fix h
    show "map_of (newTrackingMap v2) h = map_of rows h"
    proof (cases "h \<in> computeEventHash P ` set es")
      case True
      then obtain x where x: "map_of rows h = Some x"
        using keys by (cases "map_of rows h") (auto simp: map_of_eq_None_iff)
      then show ?thesis
        using foldl_syncEvent_carried [OF x True, of S' now' u0] by (simp add: v2_def)
    next
      case False
      have "map_of (newTrackingMap v2) h = None"
        using False foldl_syncEvent_other_key [of h P es S' now' rows u0] by (simp add: v2_def u0_def)
      moreover have "map_of rows h = None"
        using False keys by (auto simp: map_of_eq_None_iff)
      ultimately show ?thesis by simp
    qed
  qed
  have same: "newTrackingMap v2 = rows"
    using order1 order2 dist2 same_map by (intro assoc_list_eqI) simp_all
  have run2: "reconcile P S' now' allEvents w1 =
      (\<lparr>resCreated = 0, resUnchanged = length es, resDeleted = 0, resErrors = 0\<rparr>,
       w1\<lparr>syncSheet := Some rows\<rparr>)"
  proof -
    have fold2: "foldl (syncEvent P S' now' rows) u0 (filter surSiteCCFHK allEvents) = v2"
      by (simp add: v2_def es_def)
    show ?thesis
      using quiet del2 same
      by (simp add: reconcile_eq Let_def T1 u0_def [symmetric] fold2)
  qed
  have "w1\<lparr>syncSheet := Some rows\<rparr> = w1" using sheet1 by simp
  then show ?thesis using run2 unfolding w1_def es_def by simp
qed

theorem reconcile_idempotent_witness:
  "(\<forall>s. computeDigestMD5 testPlatform s \<noteq> []) \<and>
   resErrors (fst (reconcile testPlatform testCalendar 7 [event1, event2] (worldTracked 0))) = 0 \<and>
   resCreated (fst (reconcile testPlatform testCalendar 9 [event1, event2]
      (snd (reconcile testPlatform testCalendar 7 [event1, event2] (worldTracked 0))))) = 0 \<and>
   resDeleted (fst (reconcile testPlatform testCalendar 9 [event1, event2]
      (snd (reconcile testPlatform testCalendar 7 [event1, event2] (worldTracked 0))))) = 0 \<and>
   resUnchanged (fst (reconcile testPlatform testCalendar 9 [event1, event2]
      (snd (reconcile testPlatform testCalendar 7 [event1, event2] (worldTracked 0))))) = 2 \<and>
   snd (reconcile testPlatform testCalendar 9 [event1, event2]
      (snd (reconcile testPlatform testCalendar 7 [event1, event2] (worldTracked 0))))
     = snd (reconcile testPlatform testCalendar 7 [event1, event2] (worldTracked 0))"
proof -
  have d: "\<forall>s. computeDigestMD5 testPlatform s \<noteq> []" using digest_testPlatform by blast
  have n: "length (filter (\<lambda>e. surSiteCCFHK e = True) [event1, event2]) = 2"
    unfolding onsite_events by simp
  show ?thesis
    using reconcile_idempotent [OF d run_tracked_errors, of testCalendar 9] d run_tracked_errors n
    by simp
qed

text \<open>
  Claim C3 as stated fails: on \<open>worldEmpty 1\<close> the calendar throws at the create of the
  first run, which writes no tracking entry; the second run, on the same events, creates
  the calendar event.
\<close>

theorem reconcile_second_run_retries:
  "resErrors (fst (reconcile testPlatform testCalendar 7 [event1] (worldEmpty 1))) = 1 \<and>
   syncSheet (snd (reconcile testPlatform testCalendar 7 [event1] (worldEmpty 1))) = Some [] \<and>
   resCreated (fst (reconcile testPlatform testCalendar 8 [event1]
      (snd (reconcile testPlatform testCalendar 7 [event1] (worldEmpty 1))))) = 1"
  using run_create_retried unfolding run_create_fails by simp

section \<open>The calendar arithmetic\<close>

lemma div_bounds:
  fixes a k :: int
  assumes "0 < k"
  shows "k * (a div k) \<le> a" and "a < k * (a div k) + k"
proof -
  have "a = k * (a div k) + a mod k" by simp
  moreover have "0 \<le> a mod k" "a mod k < k" using assms by simp_all
  ultimately show "k * (a div k) \<le> a" and "a < k * (a div k) + k" by linarith+
qed

lemma div_unique_int:
  fixes a k q r :: int
  assumes "a = k * q + r" "0 \<le> r" "r < k"
  shows "a div k = q" and "a mod k = r"
proof -
  have k: "0 < k" using assms by linarith
  have b: "k * (a div k) \<le> a" "a < k * (a div k) + k" using div_bounds [OF k] by blast+
  have "k * (a div k) < k * (q + 1)" using b assms by (simp add: distrib_left)
  then have 1: "a div k < q + 1" using k by (simp add: mult_less_cancel_left_pos)
  have "k * q < k * (a div k + 1)" using b assms by (simp add: distrib_left)
  then have 2: "q < a div k + 1" using k by (simp add: mult_less_cancel_left_pos)
  show q: "a div k = q" using 1 2 by linarith
  have "a mod k = a - k * (a div k)" by (simp add: minus_mult_div_eq_mod)
  also have "\<dots> = r" unfolding q using assms(1) by simp
  finally show "a mod k = r" .
qed

lemma div_succ:
  fixes a k :: int
  assumes "0 < k"
  shows "(a + 1) div k = a div k + (if (a + 1) mod k = 0 then 1 else 0)"
proof (cases "(a + 1) mod k = 0")
  case True
  have e: "a + 1 = k * ((a + 1) div k) + (a + 1) mod k" by simp
  have "a = k * ((a + 1) div k - 1) + (k - 1)" using e True by (simp add: right_diff_distrib)
  then have "a div k = (a + 1) div k - 1"
    using div_unique_int(1) [of a k "(a + 1) div k - 1" "k - 1"] assms by linarith
  then show ?thesis using True by simp
next
  case False
  have m: "0 \<le> (a + 1) mod k" "(a + 1) mod k < k" using assms by simp_all
  have e: "a + 1 = k * ((a + 1) div k) + (a + 1) mod k" by simp
  have "a = k * ((a + 1) div k) + ((a + 1) mod k - 1)" using e by linarith
  moreover have "0 \<le> (a + 1) mod k - 1" "(a + 1) mod k - 1 < k" using m False by linarith+
  ultimately have "a div k = (a + 1) div k"
    using div_unique_int(1) [of a k "(a + 1) div k" "(a + 1) mod k - 1"] by blast
  then show ?thesis using False by simp
qed

lemma DayFromYear_bounds_aux:
  fixes y a b c :: int
  assumes "4 * a \<le> y - 1969" "y - 1969 < 4 * a + 4"
    and "100 * b \<le> y - 1901" "y - 1901 < 100 * b + 100"
    and "400 * c \<le> y - 1601" "y - 1601 < 400 * c + 400"
  shows "146097 * (y - 1970) - 600 \<le> 400 * (365 * (y - 1970) + a - b + c)"
    and "400 * (365 * (y - 1970) + a - b + c) \<le> 146097 * (y - 1970) + 600"
proof -
  show "146097 * (y - 1970) - 600 \<le> 400 * (365 * (y - 1970) + a - b + c)"
    using assms by (simp add: algebra_simps)
  show "400 * (365 * (y - 1970) + a - b + c) \<le> 146097 * (y - 1970) + 600"
    using assms by (simp add: algebra_simps)
qed

lemma DayFromYear_bounds:
  "146097 * (y - 1970) - 600 \<le> 400 * DayFromYear y"
  "400 * DayFromYear y \<le> 146097 * (y - 1970) + 600"
proof -
  have a: "4 * ((y - 1969) div 4) \<le> y - 1969" "y - 1969 < 4 * ((y - 1969) div 4) + 4"
    using div_bounds [of 4 "y - 1969"] by simp_all
  have b: "100 * ((y - 1901) div 100) \<le> y - 1901" "y - 1901 < 100 * ((y - 1901) div 100) + 100"
    using div_bounds [of 100 "y - 1901"] by simp_all
  have c: "400 * ((y - 1601) div 400) \<le> y - 1601" "y - 1601 < 400 * ((y - 1601) div 400) + 400"
    using div_bounds [of 400 "y - 1601"] by simp_all
  show "146097 * (y - 1970) - 600 \<le> 400 * DayFromYear y"
    unfolding DayFromYear_def by (rule DayFromYear_bounds_aux(1) [OF a b c])
  show "400 * DayFromYear y \<le> 146097 * (y - 1970) + 600"
    unfolding DayFromYear_def by (rule DayFromYear_bounds_aux(2) [OF a b c])
qed

lemma mod_shift:
  fixes y k n :: int
  shows "(y - k * n) mod k = y mod k"
proof -
  have "(y - k * n) mod k = (y + k * (- n)) mod k" by simp
  also have "\<dots> = y mod k" by (rule mod_mult_self2)
  finally show ?thesis .
qed

lemma div_succ_shift:
  fixes y k n :: int
  assumes "0 < k"
  shows "(y + 1 - (k * n + 1)) div k = (y - (k * n + 1)) div k + (if y mod k = 0 then 1 else 0)"
proof -
  have "(y - (k * n + 1) + 1) mod k = y mod k" using mod_shift [of y k n] by (simp add: algebra_simps)
  moreover have "y + 1 - (k * n + 1) = y - (k * n + 1) + 1" by simp
  ultimately show ?thesis using div_succ [OF assms, of "y - (k * n + 1)"] by simp
qed

lemma DayFromYear_step:
  "DayFromYear (y + 1) = DayFromYear y + (if InLeapYear y then 366 else 365)"
proof -
  have a: "(y + 1 - 1969) div 4 = (y - 1969) div 4 + (if y mod 4 = 0 then 1 else 0)"
    using div_succ_shift [of 4 y 492] by simp
  have b: "(y + 1 - 1901) div 100 = (y - 1901) div 100 + (if y mod 100 = 0 then 1 else 0)"
    using div_succ_shift [of 100 y 19] by simp
  have c: "(y + 1 - 1601) div 400 = (y - 1601) div 400 + (if y mod 400 = 0 then 1 else 0)"
    using div_succ_shift [of 400 y 4] by simp
  have d1: "y mod 100 = 0" if "y mod 400 = 0"
  proof -
    have "400 dvd y" using that by (simp add: mod_eq_0_iff_dvd)
    moreover have "(100::int) dvd 400" by simp
    ultimately have "100 dvd y" by (rule dvd_trans [rotated])
    then show ?thesis by (simp add: mod_eq_0_iff_dvd)
  qed
  have d2: "y mod 4 = 0" if "y mod 100 = 0"
  proof -
    have "100 dvd y" using that by (simp add: mod_eq_0_iff_dvd)
    moreover have "(4::int) dvd 100" by simp
    ultimately have "4 dvd y" by (rule dvd_trans [rotated])
    then show ?thesis by (simp add: mod_eq_0_iff_dvd)
  qed
  have main: "DayFromYear (y + 1) = DayFromYear y + 365 + (if y mod 4 = 0 then 1 else 0)
      - (if y mod 100 = 0 then 1 else 0) + (if y mod 400 = 0 then 1 else 0)"
    unfolding DayFromYear_def a b c by simp
  consider "y mod 400 = 0" | "y mod 400 \<noteq> 0" "y mod 100 = 0"
    | "y mod 100 \<noteq> 0" "y mod 4 = 0" | "y mod 4 \<noteq> 0" by blast
  then show ?thesis
  proof cases
    case 1
    then show ?thesis unfolding main InLeapYear_def using d1 [OF 1] d2 [OF d1 [OF 1]] by simp
  next
    case 2
    then show ?thesis unfolding main InLeapYear_def using d2 [OF 2(2)] by simp
  next
    case 3
    then have "y mod 400 \<noteq> 0" using d1 by auto
    then show ?thesis unfolding main InLeapYear_def using 3 by simp
  next
    case 4
    then have "y mod 100 \<noteq> 0" using d2 by auto
    moreover from this have "y mod 400 \<noteq> 0" using d1 by auto
    ultimately show ?thesis unfolding main InLeapYear_def using 4 by simp
  qed
qed

lemma DayFromYear_add:
  "DayFromYear y + 365 * int n \<le> DayFromYear (y + int n)"
proof (induction n)
  case 0
  show ?case by simp
next
  case (Suc n)
  have "DayFromYear (y + int (Suc n)) = DayFromYear (y + int n + 1)" by (simp add: ac_simps)
  also have "\<dots> \<ge> DayFromYear (y + int n) + 365" unfolding DayFromYear_step by simp
  finally show ?case using Suc by simp
qed

lemma DayFromYear_less:
  assumes "y < y'"
  shows "DayFromYear y + 365 \<le> DayFromYear y'"
proof -
  define n where "n = nat (y' - y)"
  have y': "y' = y + int n" and n: "1 \<le> int n" using assms by (simp_all add: n_def)
  have "DayFromYear y + 365 * int n \<le> DayFromYear y'" unfolding y' by (rule DayFromYear_add)
  then show ?thesis using n by linarith
qed

lemma DayFromYear_mono:
  "y \<le> y' \<Longrightarrow> DayFromYear y \<le> DayFromYear y'"
  using DayFromYear_less [of y y'] by (cases "y = y'") auto

lemma YearFromDay_correct:
  "DayFromYear (YearFromDay d) \<le> d" "d < DayFromYear (YearFromDay d + 1)"
proof -
  define e where "e = (400 * d) div 146097"
  have e: "146097 * e \<le> 400 * d" "400 * d < 146097 * e + 146097"
    unfolding e_def using div_bounds [of 146097 "400 * d"] by simp_all
  have up: "400 * d < 400 * DayFromYear (1970 + e + 2)"
    using DayFromYear_bounds(1) [of "1970 + e + 2"] e by (simp add: algebra_simps)
  have lo: "400 * DayFromYear (1970 + e - 1) \<le> 400 * d"
    using DayFromYear_bounds(2) [of "1970 + e - 1"] e by (simp add: algebra_simps)
  have Y: "YearFromDay d = (if DayFromYear (1970 + e + 1) \<le> d then 1970 + e + 1
         else if DayFromYear (1970 + e) \<le> d then 1970 + e else 1970 + e - 1)"
    unfolding YearFromDay_def e_def Let_def by simp
  show "DayFromYear (YearFromDay d) \<le> d" unfolding Y using lo by auto
  show "d < DayFromYear (YearFromDay d + 1)" unfolding Y using up by (auto simp: add.assoc)
qed

lemma YearFromDay_unique:
  assumes "DayFromYear y \<le> d" "d < DayFromYear (y + 1)"
  shows "YearFromDay d = y"
proof (rule ccontr)
  assume ne: "YearFromDay d \<noteq> y"
  show False
  proof (cases "YearFromDay d < y")
    case True
    then have "DayFromYear (YearFromDay d + 1) \<le> DayFromYear y" by (intro DayFromYear_mono) simp
    then show False using assms(1) YearFromDay_correct(2) [of d] by linarith
  next
    case False
    then have "y + 1 \<le> YearFromDay d" using ne by simp
    then have "DayFromYear (y + 1) \<le> DayFromYear (YearFromDay d)" by (rule DayFromYear_mono)
    then show False using assms(2) YearFromDay_correct(1) [of d] by linarith
  qed
qed

lemma DayWithinYear_range:
  "0 \<le> DayWithinYear d" "DayWithinYear d < (if InLeapYear (YearFromDay d) then 366 else 365)"
  unfolding DayWithinYear_def
  using YearFromDay_correct [of d] DayFromYear_step [of "YearFromDay d"] by (simp_all split: if_splits)

lemma monthStart_values:
  "monthStart l 0 = 0" "monthStart l 1 = 31" "monthStart l 2 = (if l then 60 else 59)"
  "monthStart l 3 = (if l then 91 else 90)" "monthStart l 4 = (if l then 121 else 120)"
  "monthStart l 5 = (if l then 152 else 151)" "monthStart l 6 = (if l then 182 else 181)"
  "monthStart l 7 = (if l then 213 else 212)" "monthStart l 8 = (if l then 244 else 243)"
  "monthStart l 9 = (if l then 274 else 273)" "monthStart l 10 = (if l then 305 else 304)"
  "monthStart l 11 = (if l then 335 else 334)" "monthStart l 12 = (if l then 366 else 365)"
  by (simp_all add: monthStart_def)

lemma month_cases:
  fixes m :: int
  assumes "0 \<le> m" "m < 12"
  obtains "m = 0" | "m = 1" | "m = 2" | "m = 3" | "m = 4" | "m = 5" | "m = 6" | "m = 7"
    | "m = 8" | "m = 9" | "m = 10" | "m = 11"
proof -
  have "m = 0 \<or> m = 1 \<or> m = 2 \<or> m = 3 \<or> m = 4 \<or> m = 5 \<or> m = 6 \<or> m = 7
      \<or> m = 8 \<or> m = 9 \<or> m = 10 \<or> m = 11"
    using assms by presburger
  then show thesis using that by blast
qed

lemma monthLength_values:
  "monthLength l 0 = 31" "monthLength l 1 = (if l then 29 else 28)" "monthLength l 2 = 31"
  "monthLength l 3 = 30" "monthLength l 4 = 31" "monthLength l 5 = 30" "monthLength l 6 = 31"
  "monthLength l 7 = 31" "monthLength l 8 = 30" "monthLength l 9 = 31" "monthLength l 10 = 30"
  "monthLength l 11 = 31"
  by (simp_all add: monthLength_def monthStart_values)

lemma monthLength_range:
  assumes "0 \<le> m" "m < 12"
  shows "28 \<le> monthLength l m" "monthLength l m \<le> 31"
  using assms by (rule month_cases; simp add: monthLength_values)+

lemma monthStart_range:
  assumes "0 \<le> m" "m < 12"
  shows "0 \<le> monthStart l m" "monthStart l (m + 1) \<le> (if l then 366 else 365)"
  using assms by (rule month_cases; simp add: monthStart_values)+

lemma month_of_day_within_year:
  assumes "0 \<le> m" "m < 12" "monthStart l m \<le> w" "w < monthStart l (m + 1)"
  shows "(if w < monthStart l 1 then 0
         else if w < monthStart l 2 then 1
         else if w < monthStart l 3 then 2
         else if w < monthStart l 4 then 3
         else if w < monthStart l 5 then 4
         else if w < monthStart l 6 then 5
         else if w < monthStart l 7 then 6
         else if w < monthStart l 8 then 7
         else if w < monthStart l 9 then 8
         else if w < monthStart l 10 then 9
         else if w < monthStart l 11 then 10
         else 11) = m"
  using assms(1,2)
proof (rule month_cases)
qed (use assms(3,4) in \<open>simp_all add: monthStart_values split: if_splits\<close>)

lemma civil_of_day:
  assumes m: "0 \<le> m" "m < 12" and dt: "1 \<le> dt" "dt \<le> monthLength (InLeapYear y) m"
  defines "z \<equiv> DayFromYear y + monthStart (InLeapYear y) m + dt - 1"
  shows "YearFromDay z = y" and "MonthFromDay z = m" and "DateFromDay z = dt"
proof -
  let ?l = "InLeapYear y"
  have w: "monthStart ?l m \<le> monthStart ?l m + dt - 1" "monthStart ?l m + dt - 1 < monthStart ?l (m + 1)"
    using dt by (simp_all add: monthLength_def)
  have "DayFromYear y \<le> z" "z < DayFromYear (y + 1)"
    unfolding z_def DayFromYear_step using w monthStart_range [OF m, of ?l] by (simp_all split: if_splits)
  then show Y: "YearFromDay z = y" by (rule YearFromDay_unique)
  have W: "DayWithinYear z = monthStart ?l m + dt - 1" unfolding DayWithinYear_def Y by (simp add: z_def)
  show M: "MonthFromDay z = m"
    unfolding MonthFromDay_def Let_def Y W by (rule month_of_day_within_year [OF m w])
  show "DateFromDay z = dt" unfolding DateFromDay_def Y W M by simp
qed

lemma MonthFromDay_range: "0 \<le> MonthFromDay d" "MonthFromDay d < 12"
  unfolding MonthFromDay_def Let_def by simp_all

lemma month_bracket:
  "monthStart (InLeapYear (YearFromDay d)) (MonthFromDay d) \<le> DayWithinYear d"
  "DayWithinYear d < monthStart (InLeapYear (YearFromDay d)) (MonthFromDay d + 1)"
proof -
  let ?l = "InLeapYear (YearFromDay d)"
  note r = DayWithinYear_range [of d]
  show "monthStart ?l (MonthFromDay d) \<le> DayWithinYear d"
    unfolding MonthFromDay_def Let_def using r(1) by (simp add: monthStart_values)
  show "DayWithinYear d < monthStart ?l (MonthFromDay d + 1)"
    unfolding MonthFromDay_def Let_def using r(2) by (simp add: monthStart_values split: if_splits)
qed

lemma DateFromDay_range:
  "1 \<le> DateFromDay d" "DateFromDay d \<le> monthLength (InLeapYear (YearFromDay d)) (MonthFromDay d)"
  unfolding DateFromDay_def monthLength_def using month_bracket [of d] by simp_all

lemma MakeDay_month: "0 \<le> m \<Longrightarrow> m < 12 \<Longrightarrow>
  MakeDay y m dt = DayFromYear y + monthStart (InLeapYear y) m + dt - 1"
  unfolding MakeDay_def Let_def by simp

lemma MakeDay_civil: "MakeDay (YearFromDay d) (MonthFromDay d) (DateFromDay d) = d"
  unfolding MakeDay_month [OF MonthFromDay_range] DateFromDay_def DayWithinYear_def by simp

lemma MakeDay_date: "MakeDay y m dt = MakeDay y m 1 + dt - 1"
  unfolding MakeDay_def Let_def by simp

lemma Day_local_MakeDate:
  assumes "0 \<le> time" "time < msPerDay"
  shows "Day (LocalTime P (UTC P (MakeDate day time))) = day"
    and "TimeWithinDay (LocalTime P (UTC P (MakeDate day time))) = time"
proof -
  have e: "LocalTime P (UTC P (MakeDate day time)) = msPerDay * day + time"
    unfolding LocalTime_def UTC_def MakeDate_def by simp
  show "Day (LocalTime P (UTC P (MakeDate day time))) = day"
    unfolding e Day_def by (rule div_unique_int(1) [OF refl assms])
  show "TimeWithinDay (LocalTime P (UTC P (MakeDate day time))) = time"
    unfolding e TimeWithinDay_def by (rule div_unique_int(2) [OF refl assms])
qed

lemma newDate_midnight:
  "Day (LocalTime P (newDate P year month dt 0 0 0)) = MakeDay (fullYear year) month dt"
  unfolding newDate_def
  by (rule Day_local_MakeDate(1)) (simp_all add: MakeTime_def msPerDay_def)

section \<open>The grid of a month\<close>

lemma placeDay_step:
  assumes "s < 7"
  shows "placeDay mkCell s n w (row, dayAfter s n (7 * w + j)) j =
     (row @ [gridCell mkCell s n (7 * w + j)], dayAfter s n (7 * w + j + 1))"
proof (cases "w = 0")
  case True
  then show ?thesis
    by (auto simp: placeDay_def gridCell_def dayAfter_def Let_def min_def)
next
  case False
  then have "s \<le> 7 * w + j" using assms by simp
  then show ?thesis using False
    by (auto simp: placeDay_def gridCell_def dayAfter_def Let_def min_def)
qed

lemma placeDay_row:
  assumes "s < 7"
  shows "foldl (placeDay mkCell s n w) (row, dayAfter s n (7 * w)) [0..<k] =
     (row @ map (\<lambda>j. gridCell mkCell s n (7 * w + j)) [0..<k], dayAfter s n (7 * w + k))"
proof (induction k)
  case 0
  show ?case by simp
next
  case (Suc k)
  show ?case using placeDay_step [OF assms, of mkCell n w _ k] by (simp add: Suc)
qed

lemma weeksFrom_rows:
  assumes "s < 7"
  shows "w < 6 \<Longrightarrow> weeksFrom mkCell s n w weeks (dayAfter s n (7 * w)) =
     weeks @ map (gridRow mkCell s n) [w..<min 6 (max (w + 1) ((s + n + 6) div 7))]"
proof (induction "6 - w" arbitrary: w weeks)
  case 0
  then show ?case by simp
next
  case (Suc k)
  have row: "foldl (placeDay mkCell s n w) ([], dayAfter s n (7 * w)) [0..<7] =
      (gridRow mkCell s n w, dayAfter s n (7 * (w + 1)))"
  proof -
    have "7 * w + 7 = 7 * (w + 1)" by simp
    then show ?thesis
      using placeDay_row [OF assms, of mkCell n w "[]" 7] by (simp only: gridRow_def append_Nil)
  qed
  show ?case
  proof (cases "dayAfter s n (7 * (w + 1)) > n")
    case True
    then have "s + n \<le> 7 * (w + 1)"
      using assms by (simp add: dayAfter_def min_def split: if_splits)
    then have "(s + n + 6) div 7 \<le> w + 1" by simp
    then have "min 6 (max (w + 1) ((s + n + 6) div 7)) = w + 1" using Suc.prems by simp
    moreover have "weeksFrom mkCell s n w weeks (dayAfter s n (7 * w)) = weeks @ [gridRow mkCell s n w]"
      using True Suc.prems by (subst weeksFrom.simps) (simp add: row)
    ultimately show ?thesis by simp
  next
    case False
    then have "7 * (w + 1) < s + n"
      using assms by (simp add: dayAfter_def min_def split: if_splits)
    then have D: "w + 2 \<le> (s + n + 6) div 7" by simp
    have unf: "weeksFrom mkCell s n w weeks (dayAfter s n (7 * w)) =
        weeksFrom mkCell s n (w + 1) (weeks @ [gridRow mkCell s n w]) (dayAfter s n (7 * (w + 1)))"
      using False Suc.prems by (subst weeksFrom.simps) (simp add: row)
    show ?thesis
    proof (cases "w + 1 < 6")
      case True
      have k: "k = 6 - (w + 1)" using Suc.hyps(2) by simp
      have "weeksFrom mkCell s n (w + 1) (weeks @ [gridRow mkCell s n w]) (dayAfter s n (7 * (w + 1)))
          = (weeks @ [gridRow mkCell s n w]) @ map (gridRow mkCell s n)
              [w + 1..<min 6 (max (w + 1 + 1) ((s + n + 6) div 7))]"
        by (rule Suc.hyps(1) [OF k True])
      moreover have "max (w + 1 + 1) ((s + n + 6) div 7) = max (w + 1) ((s + n + 6) div 7)"
        using D by simp
      moreover have "w < min 6 (max (w + 1) ((s + n + 6) div 7))" using Suc.prems by simp
      ultimately show ?thesis unfolding unf by (simp add: upt_conv_Cons)
    next
      case False
      then have w: "w = 5" using Suc.prems by simp
      have six: "weeksFrom mkCell s n (w + 1) ws d = ws" for ws d
        unfolding w by (subst weeksFrom.simps) simp
      have "min 6 (max (w + 1) ((s + n + 6) div 7)) = 6" unfolding w by simp
      then show ?thesis unfolding unf six by (simp add: w)
    qed
  qed
qed

lemma div_mod_succ:
  fixes a k :: int
  assumes "0 < k"
  shows "(a + 1) div k = (if a mod k = k - 1 then a div k + 1 else a div k)"
    and "(a + 1) mod k = (if a mod k = k - 1 then 0 else a mod k + 1)"
proof -
  have e: "a = k * (a div k) + a mod k" by simp
  have r: "0 \<le> a mod k" "a mod k < k" using assms by simp_all
  have top: "(a + 1) div k = a div k + 1 \<and> (a + 1) mod k = 0" if t: "a mod k = k - 1"
  proof -
    have h: "a + 1 = k * (a div k + 1) + 0" using e t by (simp add: distrib_left)
    show ?thesis
      using div_unique_int(1) [OF h _ assms] div_unique_int(2) [OF h _ assms] by simp
  qed
  have low: "(a + 1) div k = a div k \<and> (a + 1) mod k = a mod k + 1" if f: "a mod k \<noteq> k - 1"
  proof -
    have h: "a + 1 = k * (a div k) + (a mod k + 1)" using e by linarith
    have h1: "0 \<le> a mod k + 1" and h2: "a mod k + 1 < k" using r f by linarith+
    show ?thesis
      using div_unique_int(1) [OF h h1 h2] div_unique_int(2) [OF h h1 h2] by simp
  qed
  show "(a + 1) div k = (if a mod k = k - 1 then a div k + 1 else a div k)"
    using top low by simp
  show "(a + 1) mod k = (if a mod k = k - 1 then 0 else a mod k + 1)"
    using top low by simp
qed



lemma monday_first:
  "(if (x + 4) mod 7 = 0 then 6 else nat ((x + 4) mod 7 - 1)) = nat ((x + 3) mod 7)" for x :: int
proof -
  have "(x + 3 + 1) mod 7 = (if (x + 3) mod 7 = 7 - 1 then 0 else (x + 3) mod 7 + 1)"
    by (rule div_mod_succ(2)) simp
  moreover have "x + 3 + 1 = x + 4" by simp
  moreover have "0 \<le> (x + 3) mod 7" by simp
  ultimately show ?thesis by (simp split: if_splits)
qed

lemma startingDayOfWeek_eq:
  "startingDayOfWeek P year month = nat ((MakeDay (fullYear year) month 1 + 3) mod 7)"
proof -
  have g: "getDay P (newDate P year month 1 0 0 0) = (MakeDay (fullYear year) month 1 + 4) mod 7"
    by (simp add: getDay_def WeekDay_def newDate_midnight)
  show ?thesis unfolding startingDayOfWeek_def Let_def g by (rule monday_first)
qed

lemma startingDayOfWeek_less: "startingDayOfWeek P year month < 7"
  unfolding startingDayOfWeek_eq by simp

lemma MakeDay_next_month:
  "MakeDay y (m + 1) 0 =
     DayFromYear (y + m div 12) + monthStart (InLeapYear (y + m div 12)) (m mod 12)
       + monthLength (InLeapYear (y + m div 12)) (m mod 12) - 1"
proof (cases "m mod 12 = 11")
  case True
  have d: "(m + 1) div 12 = m div 12 + 1" "(m + 1) mod 12 = 0"
    using div_mod_succ [of 12 m] True by simp_all
  have "MakeDay y (m + 1) 0 = DayFromYear (y + m div 12 + 1) - 1"
    unfolding MakeDay_def Let_def d by (simp add: monthStart_values add.assoc)
  also have "\<dots> = DayFromYear (y + m div 12) + monthStart (InLeapYear (y + m div 12)) 12 - 1"
    unfolding DayFromYear_step by (simp add: monthStart_values)
  finally show ?thesis unfolding True monthLength_def by simp
next
  case False
  have d: "(m + 1) div 12 = m div 12" "(m + 1) mod 12 = m mod 12 + 1"
    using div_mod_succ [of 12 m] False by simp_all
  show ?thesis unfolding MakeDay_def Let_def d monthLength_def by simp
qed

lemma daysInMonth_eq:
  "daysInMonth P year month =
     nat (monthLength (InLeapYear (fullYear year + month div 12)) (month mod 12))"
proof -
  let ?y = "fullYear year + month div 12" and ?m = "month mod 12"
  have m: "0 \<le> ?m" "?m < 12" by simp_all
  have l: "1 \<le> monthLength (InLeapYear ?y) ?m" "monthLength (InLeapYear ?y) ?m \<le> monthLength (InLeapYear ?y) ?m"
    using monthLength_range(1) [OF m, of "InLeapYear ?y"] by simp_all
  have "getDate P (newDate P year (month + 1) 0 0 0 0) = DateFromDay (MakeDay (fullYear year) (month + 1) 0)"
    by (simp add: getDate_def newDate_midnight)
  also have "\<dots> = monthLength (InLeapYear ?y) ?m"
    unfolding MakeDay_next_month by (rule civil_of_day(3) [OF m l])
  finally show ?thesis by (simp add: daysInMonth_def)
qed

lemma daysInMonth_range: "28 \<le> daysInMonth P year month" "daysInMonth P year month \<le> 31"
proof -
  have m: "0 \<le> month mod 12" "month mod 12 < 12" by simp_all
  show "28 \<le> daysInMonth P year month" "daysInMonth P year month \<le> 31"
    unfolding daysInMonth_eq
    using monthLength_range [OF m, of "InLeapYear (fullYear year + month div 12)"] by simp_all
qed


lemma getDay_newDate:
  "getDay P (newDate P year month dt 0 0 0) = (MakeDay (fullYear year) month 1 + dt + 3) mod 7"
proof -
  have "getDay P (newDate P year month dt 0 0 0) = (MakeDay (fullYear year) month dt + 4) mod 7"
    by (simp add: getDay_def WeekDay_def newDate_midnight)
  also have "MakeDay (fullYear year) month dt + 4 = MakeDay (fullYear year) month 1 + dt + 3"
    using MakeDay_date [of "fullYear year" month dt] by simp
  finally show ?thesis .
qed

lemma column_is_weekday:
  assumes "1 \<le> d"
  shows "(startingDayOfWeek P year month + d - 1) mod 7
     = nat ((getDay P (newDate P year month (int d) 0 0 0) + 6) mod 7)"
proof -
  let ?M = "MakeDay (fullYear year) month 1"
  have i: "int (startingDayOfWeek P year month + d - 1) = (?M + 3) mod 7 + (int d - 1)"
    using assms unfolding startingDayOfWeek_eq by simp
  have "int ((startingDayOfWeek P year month + d - 1) mod 7)
      = ((?M + 3) mod 7 + (int d - 1)) mod 7"
    unfolding zmod_int i by simp
  also have "\<dots> = (?M + 3 + (int d - 1)) mod 7" by (simp add: mod_add_left_eq)
  also have "\<dots> = (?M + int d + 3 + 6 + 7 * (- 1)) mod 7" by simp
  also have "\<dots> = (?M + int d + 3 + 6) mod 7" by (rule mod_mult_self2)
  also have "\<dots> = ((?M + int d + 3) mod 7 + 6) mod 7" by (simp add: mod_add_left_eq)
  finally have "int ((startingDayOfWeek P year month + d - 1) mod 7)
      = (getDay P (newDate P year month (int d) 0 0 0) + 6) mod 7"
    unfolding getDay_newDate .
  then show ?thesis by simp
qed



section \<open>Background colours of a month\<close>

lemma concat_rows_map:
  "concat (map (\<lambda>w. map (\<lambda>j. g (7 * w + j)) [0..<7]) [0..<W]) = map g [0..<7 * W]"
proof (induction W)
  case 0
  show ?case by simp
next
  case (Suc W)
  have "[0..<7 * W + 7] = [0..<7 * W] @ [7 * W..<7 * W + 7]"
    by (rule upt_add_eq_append) simp
  moreover have "[7 * W..<7 * W + 7] = map (\<lambda>j. 7 * W + j) [0..<7]"
    using map_add_upt [of "7 * W" 7] by (simp add: add.commute)
  moreover have e: "7 * Suc W = 7 * W + 7" by simp
  ultimately have u: "[0..<7 * Suc W] = [0..<7 * W] @ map (\<lambda>j. 7 * W + j) [0..<7]"
    unfolding e by (simp only:)
  have "concat (map (\<lambda>w. map (\<lambda>j. g (7 * w + j)) [0..<7]) [0..<Suc W])
      = concat (map (\<lambda>w. map (\<lambda>j. g (7 * w + j)) [0..<7]) [0..<W]) @ map (\<lambda>j. g (7 * W + j)) [0..<7]"
    by simp
  also have "\<dots> = map g [0..<7 * W] @ map g (map (\<lambda>j. 7 * W + j) [0..<7])"
    unfolding Suc by (simp add: comp_def)
  finally show ?case unfolding u by simp
qed

lemma three_regions:
  assumes "s + n \<le> m"
    and "\<And>i. i < s \<Longrightarrow> g i = a"
    and "\<And>i. s + n \<le> i \<Longrightarrow> i < m \<Longrightarrow> g i = a"
    and "\<And>d. 1 \<le> d \<Longrightarrow> d \<le> n \<Longrightarrow> g (s + d - 1) = h d"
  shows "map g [0..<m] = replicate s a @ map h [1..<Suc n] @ replicate (m - s - n) a"
proof -
  define r where "r = m - s - n"
  have mr: "m = s + n + r" using assms(1) by (simp add: r_def)
  have s1: "[0..<s + (n + r)] = [0..<s] @ [s..<s + (n + r)]"
    by (rule upt_add_eq_append) simp
  have s2: "[s..<s + n + r] = [s..<s + n] @ [s + n..<s + n + r]"
    by (rule upt_add_eq_append) simp
  have split: "[0..<m] = [0..<s] @ [s..<s + n] @ [s + n..<m]"
    unfolding mr using s1 s2 by (simp add: add.assoc)
  have a: "map g [0..<s] = replicate s a"
  proof -
    have "map g [0..<s] = map (\<lambda>i. a) [0..<s]" by (rule map_cong) (simp_all add: assms(2))
    then show ?thesis by (simp add: map_replicate_const)
  qed
  have c: "map g [s + n..<m] = replicate (m - s - n) a"
  proof -
    have "map g [s + n..<m] = map (\<lambda>i. a) [s + n..<m]" by (rule map_cong) (simp_all add: assms(3))
    then show ?thesis by (simp add: map_replicate_const)
  qed
  have b: "map g [s..<s + n] = map h [1..<Suc n]"
  proof -
    have "[s..<s + n] = map (\<lambda>i. i + s) [0..<n]" by (simp add: map_add_upt add.commute)
    then have "map g [s..<s + n] = map (\<lambda>i. g (i + s)) [0..<n]" by (simp add: comp_def)
    also have "\<dots> = map (\<lambda>i. h (Suc i)) [0..<n]"
    proof (rule map_cong [OF refl])
      fix i assume "i \<in> set [0..<n]"
      then have "1 \<le> Suc i" "Suc i \<le> n" by simp_all
      from assms(4) [OF this] show "g (i + s) = h (Suc i)" by (simp add: add.commute)
    qed
    also have "\<dots> = map h (map Suc [0..<n])" by (simp add: comp_def)
    also have "map Suc [0..<n] = [1..<Suc n]" by (simp add: map_Suc_upt)
    finally show ?thesis .
  qed
  show ?thesis unfolding split by (simp add: a b c)
qed

lemma rowBackgrounds_map:
  "rowBackgrounds (map f [0..<k]) = map (\<lambda>j. cellBackground (f j) j) [0..<k]"
proof -
  have "List.enumerate 0 (map f [0..<k]) = map (\<lambda>j. (j, f j)) [0..<k]"
    by (simp add: enumerate_eq_zip zip_map2 zip_same_conv_map comp_def)
  then show ?thesis by (simp add: rowBackgrounds_def comp_def)
qed

lemma weekday_cases:
  fixes g :: int
  assumes "0 \<le> g" "g < 7"
  obtains "g = 0" | "g = 1" | "g = 2" | "g = 3" | "g = 4" | "g = 5" | "g = 6"
proof -
  have "g = 0 \<or> g = 1 \<or> g = 2 \<or> g = 3 \<or> g = 4 \<or> g = 5 \<or> g = 6"
    using assms by presburger
  then show thesis using that by blast
qed

lemma getDay_range: "0 \<le> getDay P t" "getDay P t < 7"
  by (simp_all add: getDay_def WeekDay_def)

lemma column_saturday_sunday:
  "(nat ((getDay P t + 6) mod 7) = 5) = (getDay P t = 6)"
  "(nat ((getDay P t + 6) mod 7) = 6) = (getDay P t = 0)"
  using getDay_range [of P t] by (rule weekday_cases; simp)+

lemma generateMonthGrid_rows:
  "generateMonthGrid P now yearFilter deptEmoji year month eventsByDay =
     map (gridRow (monthCell P now yearFilter deptEmoji year month eventsByDay)
            (startingDayOfWeek P year month) (daysInMonth P year month))
       [0..<(startingDayOfWeek P year month + daysInMonth P year month + 6) div 7]"
proof -
  define s where "s = startingDayOfWeek P year month"
  define n where "n = daysInMonth P year month"
  define mk where "mk = monthCell P now yearFilter deptEmoji year month eventsByDay"
  have s7: "s < 7" unfolding s_def by (rule startingDayOfWeek_less)
  have n: "28 \<le> n" "n \<le> 31" unfolding n_def by (rule daysInMonth_range)+
  have W: "1 \<le> (s + n + 6) div 7" "(s + n + 6) div 7 \<le> 6" using s7 n by simp_all
  have "generateMonthGrid P now yearFilter deptEmoji year month eventsByDay
      = weeksFrom mk s n 0 [] (dayAfter s n (7 * 0))"
    unfolding generateMonthGrid_def mk_def s_def n_def by (simp add: dayAfter_def)
  also have "\<dots> = [] @ map (gridRow mk s n) [0..<min 6 (max (0 + 1) ((s + n + 6) div 7))]"
    by (rule weeksFrom_rows [OF s7]) simp
  also have "min 6 (max (0 + 1) ((s + n + 6) div 7)) = (s + n + 6) div 7" using W by simp
  finally show ?thesis unfolding s_def n_def mk_def by simp
qed

lemma monthCell_fields:
  "dayNumber (monthCell P now yearFilter deptEmoji year month eventsByDay d) = Some d"
  "isToday (monthCell P now yearFilter deptEmoji year month eventsByDay d)
     = (getFullYear P now = year \<and> getMonth P now = month \<and> int d = getDate P now)"
  "publicHoliday (monthCell P now yearFilter deptEmoji year month eventsByDay d)
     = getPublicHoliday P (newDate P year month (int d) 0 0 0) (getCurrentAcademicYear yearFilter)"
  "schoolHoliday (monthCell P now yearFilter deptEmoji year month eventsByDay d)
     = getSchoolHoliday P (newDate P year month (int d) 0 0 0) (getCurrentAcademicYear yearFilter)"
  "cellDate (monthCell P now yearFilter deptEmoji year month eventsByDay d)
     = Some (newDate P year month (int d) 0 0 0)"
  by (simp_all add: monthCell_def formatDayCell_def Let_def)

lemma newDate_fields:
  assumes m: "0 \<le> month" "month < 12"
    and dt: "1 \<le> dt" "dt \<le> monthLength (InLeapYear (fullYear year)) month"
  shows "getFullYear P (newDate P year month dt 0 0 0) = fullYear year"
    and "getMonth P (newDate P year month dt 0 0 0) = month"
    and "getDate P (newDate P year month dt 0 0 0) = dt"
  unfolding getFullYear_def getMonth_def getDate_def newDate_midnight MakeDay_month [OF m]
  by (rule civil_of_day [OF m dt])+

lemma april_2025:
  "startingDayOfWeek testPlatform 2025 3 = 1" "daysInMonth testPlatform 2025 3 = 30"
proof -
  show "startingDayOfWeek testPlatform 2025 3 = 1"
    unfolding startingDayOfWeek_eq
    by (simp add: fullYear_def MakeDay_def DayFromYear_def InLeapYear_def monthStart_def)
  show "daysInMonth testPlatform 2025 3 = 30"
    unfolding daysInMonth_eq
    by (simp add: fullYear_def InLeapYear_def monthLength_def monthStart_def)
qed

lemma decimal_values:
  "decimal 2025 = ''2025''" "decimal 4 = ''4''" "decimal 19 = ''19''" "decimal 26 = ''26''"
  by simp_all

lemma fields_april_2025:
  "getFullYear testPlatform (newDate testPlatform 2025 3 19 0 0 0) = 2025"
  "getMonth testPlatform (newDate testPlatform 2025 3 19 0 0 0) = 3"
  "getDate testPlatform (newDate testPlatform 2025 3 19 0 0 0) = 19"
  "getFullYear testPlatform (newDate testPlatform 2025 3 26 0 0 0) = 2025"
  "getMonth testPlatform (newDate testPlatform 2025 3 26 0 0 0) = 3"
  "getDate testPlatform (newDate testPlatform 2025 3 26 0 0 0) = 26"
proof -
  have f: "fullYear 2025 = 2025" by (simp add: fullYear_def)
  have l: "monthLength (InLeapYear (fullYear 2025)) 3 = 30"
    unfolding f by (simp add: InLeapYear_def monthLength_def monthStart_def)
  have a: "(19::int) \<le> monthLength (InLeapYear (fullYear 2025)) 3"
    and b: "(26::int) \<le> monthLength (InLeapYear (fullYear 2025)) 3"
    unfolding l by simp_all
  have m: "(0::int) \<le> 3" "(3::int) < 12" "(1::int) \<le> 19" "(1::int) \<le> 26" by simp_all
  show "getFullYear testPlatform (newDate testPlatform 2025 3 19 0 0 0) = 2025"
    using newDate_fields(1) [OF m(1,2) m(3) a, of testPlatform] unfolding f .
  show "getMonth testPlatform (newDate testPlatform 2025 3 19 0 0 0) = 3"
    by (rule newDate_fields(2) [OF m(1,2) m(3) a])
  show "getDate testPlatform (newDate testPlatform 2025 3 19 0 0 0) = 19"
    by (rule newDate_fields(3) [OF m(1,2) m(3) a])
  show "getFullYear testPlatform (newDate testPlatform 2025 3 26 0 0 0) = 2025"
    using newDate_fields(1) [OF m(1,2) m(4) b, of testPlatform] unfolding f .
  show "getMonth testPlatform (newDate testPlatform 2025 3 26 0 0 0) = 3"
    by (rule newDate_fields(2) [OF m(1,2) m(4) b])
  show "getDate testPlatform (newDate testPlatform 2025 3 26 0 0 0) = 26"
    by (rule newDate_fields(3) [OF m(1,2) m(4) b])
qed

lemma formatDate_april_2025:
  "formatDate testPlatform (newDate testPlatform 2025 3 19 0 0 0) = ''2025-04-19''"
  "formatDate testPlatform (newDate testPlatform 2025 3 26 0 0 0) = ''2025-04-26''"
  unfolding formatDate_def fields_april_2025
  by (simp_all add: intToString_def padStart_def decimal_values del: decimal.simps)

lemma holidays_april_2025:
  "getPublicHoliday testPlatform (newDate testPlatform 2025 3 19 0 0 0) ''2024-2025''
     = Some (''Apr'' @ [CHR 0xE8] @ ''s Vendredi saint'')"
  "getPublicHoliday testPlatform (newDate testPlatform 2025 3 26 0 0 0) ''2024-2025'' = None"
  "getSchoolHoliday testPlatform (newDate testPlatform 2025 3 26 0 0 0) ''2024-2025''
     = Some (''Vacances de P'' @ [CHR 0xE2] @ ''ques'')"
  unfolding getPublicHoliday_def getSchoolHoliday_def formatDate_april_2025
  by (simp_all add: publicHolidays_def schoolHolidays_def Let_def)

lemma saturdays_april_2025:
  "getDay testPlatform (newDate testPlatform 2025 3 19 0 0 0) = 6"
  "getDay testPlatform (newDate testPlatform 2025 3 26 0 0 0) = 6"
  unfolding getDay_newDate
  by (simp_all add: fullYear_def MakeDay_def DayFromYear_def InLeapYear_def monthStart_def)

lemma epoch_year: "getFullYear testPlatform 0 = 1970"
  by (simp add: getFullYear_def LocalTime_def Day_def msPerDay_def testPlatform_def
      YearFromDay_def DayFromYear_def Let_def)

text \<open>
  Claim C5, amended. Read row by row, the backgrounds that \<open>applyFormatting\<close> leaves on
  the cells of a month are: none on a blank cell; on the cell of a day, the highlight of
  today when the day is today, else the colour of the public holiday when the day is
  one, else the colour of the school holidays when the day lies in a school holiday and
  is neither a Saturday nor a Sunday, else the colour of its Saturday or Sunday, else
  white. The holidays are those of the academic year of the year filter. The code has no
  overlay for an absence of staff.
\<close>

theorem month_backgrounds:
  "concat (map rowBackgrounds (generateMonthGrid P now yearFilter deptEmoji year month eventsByDay)) =
     replicate (startingDayOfWeek P year month) None
     @ map (\<lambda>d. Some
         (if getFullYear P now = year \<and> getMonth P now = month \<and> int d = getDate P now
          then ''#BBDEFB''
          else if truthyName (getPublicHoliday P (newDate P year month (int d) 0 0 0)
                    (getCurrentAcademicYear yearFilter))
          then colorPublicHoliday
          else if truthyName (getSchoolHoliday P (newDate P year month (int d) 0 0 0)
                    (getCurrentAcademicYear yearFilter))
                  \<and> getDay P (newDate P year month (int d) 0 0 0) \<noteq> 6
                  \<and> getDay P (newDate P year month (int d) 0 0 0) \<noteq> 0
          then colorSchoolHoliday
          else if getDay P (newDate P year month (int d) 0 0 0) = 6 then colorSaturday
          else if getDay P (newDate P year month (int d) 0 0 0) = 0 then colorSunday
          else ''#FFFFFF''))
         [1..<Suc (daysInMonth P year month)]
     @ replicate (7 * length (generateMonthGrid P now yearFilter deptEmoji year month eventsByDay)
                   - startingDayOfWeek P year month - daysInMonth P year month) None"
proof -
  define s where "s = startingDayOfWeek P year month"
  define n where "n = daysInMonth P year month"
  define mk where "mk = monthCell P now yearFilter deptEmoji year month eventsByDay"
  define W where "W = (s + n + 6) div 7"
  define bg where "bg idx = cellBackground (gridCell mk s n idx) (idx mod 7)" for idx
  define col where "col d = Some
         (if getFullYear P now = year \<and> getMonth P now = month \<and> int d = getDate P now
          then ''#BBDEFB''
          else if truthyName (getPublicHoliday P (newDate P year month (int d) 0 0 0)
                    (getCurrentAcademicYear yearFilter))
          then colorPublicHoliday
          else if truthyName (getSchoolHoliday P (newDate P year month (int d) 0 0 0)
                    (getCurrentAcademicYear yearFilter))
                  \<and> getDay P (newDate P year month (int d) 0 0 0) \<noteq> 6
                  \<and> getDay P (newDate P year month (int d) 0 0 0) \<noteq> 0
          then colorSchoolHoliday
          else if getDay P (newDate P year month (int d) 0 0 0) = 6 then colorSaturday
          else if getDay P (newDate P year month (int d) 0 0 0) = 0 then colorSunday
          else ''#FFFFFF'')" for d
  have s7: "s < 7" unfolding s_def by (rule startingDayOfWeek_less)
  have n: "28 \<le> n" "n \<le> 31" unfolding n_def by (rule daysInMonth_range)+
  have W: "s + n \<le> 7 * W" unfolding W_def by simp
  have grid: "generateMonthGrid P now yearFilter deptEmoji year month eventsByDay
      = map (gridRow mk s n) [0..<W]"
    unfolding generateMonthGrid_rows mk_def s_def n_def W_def ..
  have row: "rowBackgrounds (gridRow mk s n w) = map (\<lambda>j. bg (7 * w + j)) [0..<7]" for w
  proof -
    have "rowBackgrounds (gridRow mk s n w)
        = map (\<lambda>j. cellBackground (gridCell mk s n (7 * w + j)) j) [0..<7]"
      unfolding gridRow_def by (rule rowBackgrounds_map)
    also have "\<dots> = map (\<lambda>j. bg (7 * w + j)) [0..<7]"
      by (rule map_cong [OF refl]) (simp add: bg_def)
    finally show ?thesis .
  qed
  have blank: "cellBackground blankDayCell c = None" for c
    by (simp add: cellBackground_def blankDayCell_def)
  have day: "bg (s + d - 1) = col d" if d: "1 \<le> d" "d \<le> n" for d
  proof -
    let ?t = "newDate P year month (int d) 0 0 0"
    have i: "s \<le> s + d - 1" "s + d - 1 < s + n" "s + d - 1 - s + 1 = d" using d by linarith+
    have cell: "gridCell mk s n (s + d - 1) = mk d" unfolding gridCell_def using i by simp
    have c: "(s + d - 1) mod 7 = nat ((getDay P ?t + 6) mod 7)"
      unfolding s_def by (rule column_is_weekday [OF d(1)])
    show ?thesis
      unfolding bg_def cell c col_def
      by (simp add: cellBackground_def backgroundColor_def Let_def mk_def monthCell_fields
          column_saturday_sunday)
  qed
  have "concat (map rowBackgrounds (generateMonthGrid P now yearFilter deptEmoji year month eventsByDay))
      = concat (map (\<lambda>w. map (\<lambda>j. bg (7 * w + j)) [0..<7]) [0..<W])"
    unfolding grid by (simp add: comp_def row)
  also have "\<dots> = map bg [0..<7 * W]" by (rule concat_rows_map)
  also have "\<dots> = replicate s None @ map col [1..<Suc n] @ replicate (7 * W - s - n) None"
  proof (rule three_regions [OF W])
    show "bg i = None" if "i < s" for i using that by (simp add: bg_def gridCell_def blank)
    show "bg i = None" if "s + n \<le> i" for i using that by (simp add: bg_def gridCell_def blank)
    show "bg (s + d - 1) = col d" if "1 \<le> d" "d \<le> n" for d using that by (rule day)
  qed
  finally show ?thesis
    unfolding col_def grid by (simp add: s_def n_def W_def)
qed

theorem month_backgrounds_witness:
  "getPublicHoliday testPlatform (newDate testPlatform 2025 3 19 0 0 0)
       (getCurrentAcademicYear (Some ''2024-2025''))
     = Some (''Apr'' @ [CHR 0xE8] @ ''s Vendredi saint'') \<and>
   getDay testPlatform (newDate testPlatform 2025 3 19 0 0 0) = 6 \<and>
   concat (map rowBackgrounds
       (generateMonthGrid testPlatform 0 (Some ''2024-2025'') (\<lambda>d. []) 2025 3 Map.empty)) ! 19
     = Some colorPublicHoliday \<and>
   concat (map rowBackgrounds
       (generateMonthGrid testPlatform 0 (Some ''2024-2025'') (\<lambda>d. []) 2025 3 Map.empty)) ! 0
     = None"
proof -
  have ay: "getCurrentAcademicYear (Some ''2024-2025'') = ''2024-2025''"
    by (simp add: getCurrentAcademicYear_def)
  note t = month_backgrounds [of testPlatform 0 "Some ''2024-2025''" "\<lambda>d. []" 2025 3 Map.empty]
  have a: "concat (map rowBackgrounds
       (generateMonthGrid testPlatform 0 (Some ''2024-2025'') (\<lambda>d. []) 2025 3 Map.empty)) ! 19
     = Some colorPublicHoliday"
    unfolding t april_2025 ay
    by (simp add: nth_append epoch_year holidays_april_2025 truthyName_def)
  have b: "concat (map rowBackgrounds
       (generateMonthGrid testPlatform 0 (Some ''2024-2025'') (\<lambda>d. []) 2025 3 Map.empty)) ! 0
     = None"
    unfolding t april_2025 by simp
  show ?thesis
    unfolding ay using a b holidays_april_2025(1) saturdays_april_2025(1) unfolding ay by simp
qed

text \<open>
  Claim C5 as stated fails where it puts a school break above the weekend: 26 April 2025
  is a Saturday in the Easter holidays of 2024-2025 and no public holiday; its cell, in
  column 5, gets the colour of Saturdays, not that of the school holidays.
\<close>

theorem school_break_saturday_background:
  "getSchoolHoliday testPlatform (newDate testPlatform 2025 3 26 0 0 0)
       (getCurrentAcademicYear (Some ''2024-2025''))
     = Some (''Vacances de P'' @ [CHR 0xE2] @ ''ques'') \<and>
   getPublicHoliday testPlatform (newDate testPlatform 2025 3 26 0 0 0)
       (getCurrentAcademicYear (Some ''2024-2025'')) = None \<and>
   getDay testPlatform (newDate testPlatform 2025 3 26 0 0 0) = 6 \<and>
   (startingDayOfWeek testPlatform 2025 3 + 26 - 1) mod 7 = 5 \<and>
   cellBackground (monthCell testPlatform 0 (Some ''2024-2025'') (\<lambda>d. []) 2025 3 Map.empty 26) 5
     = Some colorSaturday \<and>
   colorSaturday \<noteq> colorSchoolHoliday"
proof -
  have ay: "getCurrentAcademicYear (Some ''2024-2025'') = ''2024-2025''"
    by (simp add: getCurrentAcademicYear_def)
  have bg: "cellBackground (monthCell testPlatform 0 (Some ''2024-2025'') (\<lambda>d. []) 2025 3 Map.empty 26) 5
     = Some colorSaturday"
    unfolding cellBackground_def backgroundColor_def monthCell_fields ay
    by (simp add: epoch_year holidays_april_2025 truthyName_def Let_def)
  have col: "(startingDayOfWeek testPlatform 2025 3 + 26 - 1) mod 7 = 5"
    unfolding april_2025 by simp
  have ne: "colorSaturday \<noteq> colorSchoolHoliday"
    by (simp add: colorSaturday_def colorSchoolHoliday_def)
  show ?thesis
    unfolding ay using holidays_april_2025(2,3) saturdays_april_2025(2) bg col ne by simp
qed
end
